theory Spec2Isabelle
  imports Main "HOL-Library.Sublist"
begin

section \<open>Text\<close>

text \<open>
  Python strings are modelled as \<^typ>\<open>string\<close>. The text handled is taken to be ASCII:
  the character classes below are the ASCII parts of the classes Python uses, and
  \<open>upper\<close> changes the letters a to z only.
\<close>

definition code :: "char \<Rightarrow> nat" where
  "code c = of_char c"

definition is_digit :: "char \<Rightarrow> bool" where
  "is_digit c = (48 \<le> code c \<and> code c \<le> 57)"

definition is_space :: "char \<Rightarrow> bool" where
  "is_space c = ((9 \<le> code c \<and> code c \<le> 13) \<or> (28 \<le> code c \<and> code c \<le> 32))"

definition is_letter :: "char \<Rightarrow> bool" where
  "is_letter c = ((65 \<le> code c \<and> code c \<le> 90) \<or> (97 \<le> code c \<and> code c \<le> 122))"

text \<open>The class \<^verbatim>\<open>[A-Za-z\-]\<close> of \<^verbatim>\<open>find_author\<close>, and the class \<^verbatim>\<open>[A-Za-z\- ]\<close>.\<close>

definition is_name_char :: "char \<Rightarrow> bool" where
  "is_name_char c = (is_letter c \<or> c = CHR ''-'')"

definition is_name_or_blank :: "char \<Rightarrow> bool" where
  "is_name_or_blank c = (is_name_char c \<or> c = CHR '' '')"

definition upper_char :: "char \<Rightarrow> char" where
  "upper_char c = (if 97 \<le> code c \<and> code c \<le> 122 then char_of (code c - 32) else c)"

definition upper :: "string \<Rightarrow> string" where
  "upper s = map upper_char s"

section \<open>Regular expressions\<close>

text \<open>
  The patterns of the source are compiled by Python's \<^verbatim>\<open>re\<close>, a backtracking matcher:
  alternatives are tried from the left, \<^verbatim>\<open>+\<close> is greedy and gives characters back one
  iteration at a time. A cursor is the number of characters in front of the position
  together with the text behind it. \<open>matches r c\<close> lists the cursors at which a match of
  \<open>r\<close> that starts at \<open>c\<close> can end, in the order in which the matcher tries them.
\<close>

datatype re =
    Eps
  | Bol
  | Eol
  | Sym "char \<Rightarrow> bool"
  | Lit string
  | Seq re re
  | Alt re re
  | Plus re

type_synonym cursor = "nat \<times> string"

fun matches :: "re \<Rightarrow> cursor \<Rightarrow> cursor list" where
  "matches Eps c = [c]"
| "matches Bol c = (if fst c = 0 then [c] else [])"
| "matches Eol c = (if snd c = [] \<or> snd c = [CHR 0x0A] then [c] else [])"
| "matches (Sym P) c =
     (case snd c of [] \<Rightarrow> [] | x # xs \<Rightarrow> if P x then [(Suc (fst c), xs)] else [])"
| "matches (Lit l) c =
     (if take (length l) (snd c) = l
      then [(fst c + length l, drop (length l) (snd c))] else [])"
| "matches (Seq r1 r2) c = concat (map (matches r2) (matches r1 c))"
| "matches (Alt r1 r2) c = matches r1 c @ matches r2 c"
| "matches (Plus r) c =
     concat (map (\<lambda>c'. if length (snd c') < length (snd c)
                         then matches (Plus r) c' @ [c'] else [c'])
                 (matches r c))"

text \<open>
  A pattern with one group is given as the part in front of the group, the group and the
  part behind it. The first way through the three parts is the match; its group text and
  its end are returned.
\<close>

definition match_group :: "re \<Rightarrow> re \<Rightarrow> re \<Rightarrow> cursor \<Rightarrow> (string \<times> cursor) option" where
  "match_group pre grp post c =
     (case concat (map (\<lambda>c1. concat (map (\<lambda>c2. map (\<lambda>c3. (take (fst c2 - fst c1) (snd c1), c3))
                                                    (matches post c2))
                                       (matches grp c1)))
                       (matches pre c))
      of [] \<Rightarrow> None | x # _ \<Rightarrow> Some x)"

text \<open>
  \<^verbatim>\<open>pattern.findall(string)\<close>: the group texts of the matches found from left to right,
  each search starting where the last match ended. (A match that consumes nothing moves
  the search on by one character; the patterns of this program never match the empty
  text.)
\<close>

fun findall_from :: "re \<Rightarrow> re \<Rightarrow> re \<Rightarrow> cursor \<Rightarrow> string list" where
  "findall_from pre grp post (n, s) =
     (case match_group pre grp post (n, s) of
        Some (g, (n', s')) \<Rightarrow>
          (if length s' < length s then g # findall_from pre grp post (n', s')
           else (case s of [] \<Rightarrow> [g] | x # xs \<Rightarrow> g # findall_from pre grp post (Suc n, xs)))
      | None \<Rightarrow>
          (case s of [] \<Rightarrow> [] | x # xs \<Rightarrow> findall_from pre grp post (Suc n, xs)))"

definition findall :: "re \<Rightarrow> re \<Rightarrow> re \<Rightarrow> string \<Rightarrow> string list" where
  "findall pre grp post s = findall_from pre grp post (0, s)"

text \<open>\<^verbatim>\<open>regex.search(input)\<close> followed by \<^verbatim>\<open>m.group()\<close>: the text of the leftmost match.\<close>

fun search_from :: "re \<Rightarrow> cursor \<Rightarrow> string option" where
  "search_from r (n, s) =
     (case matches r (n, s) of
        c' # _ \<Rightarrow> Some (take (fst c' - n) s)
      | [] \<Rightarrow> (case s of [] \<Rightarrow> None | x # xs \<Rightarrow> search_from r (Suc n, xs)))"

section \<open>Text Normalizer\<close>

text \<open>\<^verbatim>\<open>(?P<name>[A-Za-z\-]+)(?: +and +| +AND +|$)\<close>\<close>

definition blanks :: re where
  "blanks = Plus (Sym (\<lambda>c. c = CHR '' ''))"

definition author_sep :: re where
  "author_sep = Alt (Seq blanks (Seq (Lit ''and'') blanks))
                    (Alt (Seq blanks (Seq (Lit ''AND'') blanks)) Eol)"

text \<open>\<^verbatim>\<open>(?:^|and +|AND +)(?P<name>[A-Za-z\- ]+)\<close>\<close>

definition author_lead :: re where
  "author_lead = Alt Bol (Alt (Seq (Lit ''and'') blanks) (Seq (Lit ''AND'') blanks))"

definition find_author :: "string \<Rightarrow> string list" where
  "find_author author_json =
     (if CHR '','' \<notin> set author_json
      then findall Eps (Plus (Sym is_name_char)) author_sep author_json
      else findall author_lead (Plus (Sym is_name_or_blank)) Eps author_json)"

text \<open>\<^verbatim>\<open>(\d\d\.\d+\/\S+)\<close>\<close>

definition doi_re :: re where
  "doi_re = Seq (Sym is_digit) (Seq (Sym is_digit) (Seq (Lit ''.'')
              (Seq (Plus (Sym is_digit)) (Seq (Lit ''/'') (Plus (Sym (\<lambda>c. \<not> is_space c)))))))"

definition find_doi :: "string option \<Rightarrow> string option" where
  "find_doi input = (case input of None \<Rightarrow> None | Some s \<Rightarrow> search_from doi_re (0, s))"

text \<open>The title normalisation of \<^verbatim>\<open>citation_matching\<close>: braces removed, then upper case.\<close>

definition clean_title :: "string \<Rightarrow> string" where
  "clean_title t = upper (filter (\<lambda>c. c \<noteq> CHR 0x7D) (filter (\<lambda>c. c \<noteq> CHR 0x7B) t))"

section \<open>Similarity Scorer\<close>

text \<open>
  \<^verbatim>\<open>fuzz.ratio\<close> and \<^verbatim>\<open>fuzz.partial_ratio\<close> belong to the library \<^verbatim>\<open>thefuzz\<close>, which is
  not part of the repository. The program is modelled over any pair of scorers.
\<close>

record fuzz =
  ratio :: "string \<Rightarrow> string \<Rightarrow> int"
  partial_ratio :: "string \<Rightarrow> string \<Rightarrow> int"

text \<open>
  To run the definitions on concrete inputs, the scores of the library are supplied as a
  table: the pair of scores (full, partial) for each listed pair of texts; a pair of
  texts that is not listed scores 100 when the two texts are the same and 0 otherwise.
\<close>

definition table_fuzz :: "((string \<times> string) \<times> int \<times> int) list \<Rightarrow> fuzz" where
  "table_fuzz t =
     \<lparr>ratio = (\<lambda>a b. case map_of t (a, b) of
                        Some scores \<Rightarrow> fst scores
                      | None \<Rightarrow> if a = b then 100 else 0),
      partial_ratio = (\<lambda>a b. case map_of t (a, b) of
                        Some scores \<Rightarrow> snd scores
                      | None \<Rightarrow> if a = b then 100 else 0)\<rparr>"

section \<open>Author Matcher\<close>

definition similar_in :: "fuzz \<Rightarrow> string \<Rightarrow> string list \<Rightarrow> bool" where
  "similar_in fz author otherauthors =
     list_ex (\<lambda>a. ratio fz (upper author) (upper a) \<ge> 95) otherauthors"

text \<open>
  The loop of \<^verbatim>\<open>find_matching_authors\<close> over \<^verbatim>\<open>artauthors\<close>; \<open>art0\<close> and \<open>other0\<close> are
  \<^verbatim>\<open>artauthors[0]\<close> and \<^verbatim>\<open>otherauthors[0]\<close>, which exist when the loop is entered.
\<close>

fun author_loop ::
  "fuzz \<Rightarrow> string \<Rightarrow> string \<Rightarrow> string list \<Rightarrow> string list \<Rightarrow> int \<times> int \<Rightarrow> int \<times> int" where
  "author_loop fz art0 other0 otherauthors [] (counter, number) = (counter, number)"
| "author_loop fz art0 other0 otherauthors (author # rest) (counter, number) =
     author_loop fz art0 other0 otherauthors rest
       (if author = art0 then
          (if author = other0 then (counter + 5, number - 1)
           else if similar_in fz author otherauthors then (counter + 3, number - 1)
           else (counter, number))
        else if author = other0 then (counter + 3, number - 1)
        else if similar_in fz author otherauthors then (counter + 1, number - 1)
        else (counter, number))"

definition find_matching_authors :: "fuzz \<Rightarrow> string list \<Rightarrow> string list \<Rightarrow> int \<times> int" where
  "find_matching_authors fz artauthors otherauthors =
     (let counter = 0; number = int (length artauthors) + int (length otherauthors)
      in case (artauthors, otherauthors) of
           (art0 # _, other0 # _) \<Rightarrow>
             author_loop fz art0 other0 otherauthors artauthors (counter, number)
         | _ \<Rightarrow> (counter, number))"

section \<open>Interactive Disambiguator\<close>

text \<open>
  The session: the global list \<^verbatim>\<open>user_answers\<close>, the lines the operator will still type
  (one per call of \<^verbatim>\<open>input()\<close>), and what has been written to the console.
\<close>

type_synonym question = "string \<times> string \<times> string list \<times> string list"

datatype event =
    Divider string
  | Warn string
  | Text string
  | Print string
  | PrintQuestion question
  | Fail1 string
  | Fail2 string "string option"

datatype error = TypeError | ValueError | AttributeError | EOFError | ParseError

record world =
  user_answers :: "(question \<times> bool) list"
  stdin :: "string list"
  out :: "event list"

fun cached_answer :: "question \<Rightarrow> (question \<times> bool) list \<Rightarrow> bool option" where
  "cached_answer question [] = None"
| "cached_answer question (user_answer # rest) =
     (if fst user_answer = question then Some (snd user_answer)
      else cached_answer question rest)"

definition prompt :: "question \<Rightarrow> event list" where
  "prompt question =
     [Warn ''Unsure whether the entries belong together or not:'',
      PrintQuestion question,
      Text ''Do both entries belong to the same article?'',
      Text ''Please enter 'y' or 'n'...'']"

text \<open>
  \<^verbatim>\<open>ask_user\<close>, with \<^verbatim>\<open>without_interactive_queries\<close> of the enclosing call as its first
  argument. \<^verbatim>\<open>input()\<close> raises \<^verbatim>\<open>EOFError\<close> when the operator has no line left.
\<close>

definition ask_user :: "bool \<Rightarrow> question \<Rightarrow> world \<Rightarrow> error + (bool \<times> world)" where
  "ask_user without_interactive_queries question w =
     (if without_interactive_queries then Inr (False, w)
      else case cached_answer question (user_answers w) of
             Some answer \<Rightarrow> Inr (answer, w)
           | None \<Rightarrow>
               (case stdin w of
                  [] \<Rightarrow> Inl EOFError
                | line # rest \<Rightarrow>
                    Inr (line = ''y'',
                         w\<lparr>user_answers := user_answers w @ [(question, line = ''y'')],
                           stdin := rest,
                           out := out w @ prompt question\<rparr>)))"

text \<open>A run of calls of \<^verbatim>\<open>ask_user\<close> in one session, each with its mode and its question.\<close>

fun ask_all :: "(bool \<times> question) list \<Rightarrow> world \<Rightarrow> error + world" where
  "ask_all [] w = Inr w"
| "ask_all ((mode, question) # calls) w =
     (case ask_user mode question w of
        Inl e \<Rightarrow> Inl e
      | Inr (answer, w') \<Rightarrow> ask_all calls w')"

section \<open>Match Decision Engine\<close>

definition citation_matching ::
  "fuzz \<Rightarrow> string option \<Rightarrow> string option \<Rightarrow> string option \<Rightarrow> string option \<Rightarrow>
   string list \<Rightarrow> string list \<Rightarrow> bool \<Rightarrow> world \<Rightarrow> error + (bool \<times> world)" where
  "citation_matching fz doi_art doi_ref title_art title_ref author_art authors_ref
       without_interactive_queries w =
     (let doi_art' = find_doi doi_art; doi_ref' = find_doi doi_ref
      in if doi_art' = doi_ref' \<and> doi_art' \<noteq> None \<and> doi_ref' \<noteq> None then Inr (True, w)
         else case (title_art, title_ref) of
           (Some t_art, Some t_ref) \<Rightarrow>
             (let clean_title_art = clean_title t_art;
                  clean_title_ref = clean_title t_ref;
                  lev = ratio fz clean_title_art clean_title_ref;
                  lev_partial = partial_ratio fz clean_title_art clean_title_ref
              in if lev > 90 \<or> (lev_partial > 95 \<and> lev > 70) then
                   (if fst (find_matching_authors fz author_art authors_ref) \<ge> 2
                    then Inr (True, w)
                    else ask_user without_interactive_queries
                           (clean_title_art, clean_title_ref, author_art, authors_ref) w)
                 else if lev_partial > 90 \<and> lev > 60 then
                   ask_user without_interactive_queries
                     (clean_title_art, clean_title_ref, author_art, authors_ref) w
                 else Inr (False, w))
         | _ \<Rightarrow> Inr (False, w))"

section \<open>Graph Builder\<close>

subsection \<open>The bibliography\<close>

text \<open>
  One entry of \<^verbatim>\<open>bib["final selection articles"]\<close>. A field that is \<^verbatim>\<open>null\<close> in
  the JSON file is \<open>None\<close>. The year is \<^verbatim>\<open>null\<close>, a whole number or a text. The test
  \<^verbatim>\<open>art["title"] is article["title"]\<close> compares objects, not texts: \<open>title_id\<close> is the
  identity of the object that the title field holds.
\<close>

datatype year_field = YearNull | YearInt int | YearStr string

record article =
  bibtex_key :: string
  year :: year_field
  author :: "string option"
  title :: "string option"
  title_id :: nat
  file_field :: "string option"
  doi :: "string option"

text \<open>
  \<^verbatim>\<open>int(text)\<close>: white space around the number is dropped (blank, tab, line feed,
  vertical tab, form feed and carriage return), one sign may lead, and single
  underscores may stand between digits.
\<close>

definition is_int_space :: "char \<Rightarrow> bool" where
  "is_int_space c = ((9 \<le> code c \<and> code c \<le> 13) \<or> code c = 32)"

definition strip :: "string \<Rightarrow> string" where
  "strip s = rev (dropWhile is_int_space (rev (dropWhile is_int_space s)))"

fun digits_value :: "nat \<Rightarrow> string \<Rightarrow> nat option" where
  "digits_value acc [] = Some acc"
| "digits_value acc (c # cs) =
     (if is_digit c then digits_value (10 * acc + (code c - 48)) cs
      else if c = CHR ''_'' then
        (case cs of [] \<Rightarrow> None
         | d # _ \<Rightarrow> if is_digit d then digits_value acc cs else None)
      else None)"

definition unsigned_int :: "string \<Rightarrow> nat option" where
  "unsigned_int body =
     (case body of [] \<Rightarrow> None
      | c # _ \<Rightarrow> if is_digit c then digits_value 0 body else None)"

definition py_int :: "string \<Rightarrow> int option" where
  "py_int s =
     (case strip s of
        [] \<Rightarrow> None
      | c # cs \<Rightarrow>
          if c = CHR ''-'' then map_option (\<lambda>n. - int n) (unsigned_int cs)
          else if c = CHR ''+'' then map_option int (unsigned_int cs)
          else map_option int (unsigned_int (c # cs)))"

text \<open>\<^verbatim>\<open>int(article["year"])\<close>\<close>

definition int_of_year :: "year_field \<Rightarrow> error + int" where
  "int_of_year y =
     (case y of
        YearNull \<Rightarrow> Inl TypeError
      | YearInt i \<Rightarrow> Inr i
      | YearStr s \<Rightarrow> (case py_int s of None \<Rightarrow> Inl ValueError | Some i \<Rightarrow> Inr i))"

subsection \<open>What the builder reads from outside\<close>

text \<open>
  One \<^verbatim>\<open>biblStruct\<close> of a parsed TEI document: the text of its first \<^verbatim>\<open>title\<close>
  element and of its first \<^verbatim>\<open>idno\<close> element of type doi (\<open>None\<close> when there is no
  such element, \<open>Some None\<close> when the element has no text), and the texts of its
  \<^verbatim>\<open>surname\<close> elements, each of which is taken to carry a text, as the surnames
  of the data model do.
\<close>

record bibl =
  title_text :: "string option option"
  doi_text :: "string option option"
  surnames :: "string list"

text \<open>
  The scorers, the MD5 digest as hexadecimal text (\<^verbatim>\<open>hashlib\<close>), the text of the
  regular file at a path (\<open>None\<close> when \<^verbatim>\<open>os.path.isfile\<close> is false) and the
  \<^verbatim>\<open>biblStruct\<close> elements that the XML parser finds in a text (\<open>None\<close> when the text
  is not well-formed XML).
\<close>

record env =
  scorer :: fuzz
  md5_hexdigest :: "string \<Rightarrow> string"
  read_file :: "string \<Rightarrow> string option"
  parse_tei :: "string \<Rightarrow> bibl list option"

subsection \<open>Keys and paths\<close>

definition isdigit :: "string \<Rightarrow> bool" where
  "isdigit s = (s \<noteq> [] \<and> list_all is_digit s)"

definition key_to_md5 :: "(string \<Rightarrow> string) \<Rightarrow> string \<Rightarrow> string" where
  "key_to_md5 md5 key =
     (let hd = md5 key; shorthd = take 6 hd
      in if isdigit shorthd then shorthd @ ''a'' else shorthd)"

definition hash_keys :: "env \<Rightarrow> bool \<Rightarrow> article list \<Rightarrow> article list" where
  "hash_keys e original_bibtex_keys articles =
     (if \<not> original_bibtex_keys
      then map (\<lambda>article. article\<lparr>bibtex_key :=
                  key_to_md5 (md5_hexdigest e) (bibtex_key article)\<rparr>) articles
      else articles)"

text \<open>\<^verbatim>\<open>os.path.basename\<close> and \<^verbatim>\<open>os.path.join\<close> on POSIX paths.\<close>

definition basename :: "string \<Rightarrow> string" where
  "basename p = rev (takeWhile (\<lambda>c. c \<noteq> CHR ''/'') (rev p))"

definition path_join :: "string \<Rightarrow> string \<Rightarrow> string" where
  "path_join a b =
     (case b of
        [] \<Rightarrow> (if a = [] \<or> last a = CHR ''/'' then a else a @ ''/'')
      | c # _ \<Rightarrow>
          if c = CHR ''/'' then b
          else if a = [] \<or> last a = CHR ''/'' then a @ b
          else a @ ''/'' @ b)"

definition tei_path :: "string \<Rightarrow> string \<Rightarrow> string" where
  "tei_path tei f =
     (let xmlName = take (length (basename f) - 4) (basename f)
      in path_join tei (xmlName @ ''.tei.xml''))"

subsection \<open>Years\<close>

fun collect_years :: "article list \<Rightarrow> error + int list" where
  "collect_years [] = Inr []"
| "collect_years (article # rest) =
     (if year article \<noteq> YearNull then
        (case int_of_year (year article) of
           Inl e \<Rightarrow> Inl e
         | Inr y \<Rightarrow>
             (case collect_years rest of Inl e \<Rightarrow> Inl e | Inr ys \<Rightarrow> Inr (y # ys)))
      else collect_years rest)"

text \<open>The inner loop of the year index: the keys of the articles of the year \<open>y\<close>.\<close>

fun this_year_arts :: "int \<Rightarrow> article list \<Rightarrow> error + string list" where
  "this_year_arts y [] = Inr []"
| "this_year_arts y (article # rest) =
     (case int_of_year (year article) of
        Inl e \<Rightarrow> Inl e
      | Inr i \<Rightarrow>
          (case this_year_arts y rest of
             Inl e \<Rightarrow> Inl e
           | Inr ks \<Rightarrow> Inr (if i = y then bibtex_key article # ks else ks)))"

fun add_year_arts ::
  "int list \<Rightarrow> article list \<Rightarrow> (int \<rightharpoonup> string list) \<Rightarrow> error + (int \<rightharpoonup> string list)" where
  "add_year_arts [] articles year_arts = Inr year_arts"
| "add_year_arts (y # ys) articles year_arts =
     (case this_year_arts y articles of
        Inl e \<Rightarrow> Inl e
      | Inr ks \<Rightarrow> add_year_arts ys articles (year_arts(y \<mapsto> ks)))"

subsection \<open>Articles of the graph\<close>

record article_dict =
  dict_title :: "string option"
  dict_author :: "string list"
  dict_key :: string
  dict_year :: year_field

text \<open>\<^verbatim>\<open>find_author(None)\<close> raises \<^verbatim>\<open>TypeError\<close> at \<^verbatim>\<open>"," not in author_json\<close>.\<close>

fun add_articles :: "article list \<Rightarrow> error + article_dict list" where
  "add_articles [] = Inr []"
| "add_articles (article # rest) =
     (case author article of
        None \<Rightarrow> Inl TypeError
      | Some a \<Rightarrow>
          (case add_articles rest of
             Inl e \<Rightarrow> Inl e
           | Inr ds \<Rightarrow>
               Inr (\<lparr>dict_title = title article, dict_author = find_author a,
                     dict_key = bibtex_key article, dict_year = year article\<rparr> # ds)))"

subsection \<open>Edges\<close>

record edge =
  from_key :: string
  to_key :: string

text \<open>
  The loop \<^verbatim>\<open>for art in articles\<close> for one reference of the source \<open>article\<close>. It
  carries the edges of the graph and the session.
\<close>

fun scan_candidates ::
  "fuzz \<Rightarrow> bool \<Rightarrow> article \<Rightarrow> string option \<Rightarrow> string option \<Rightarrow> string list \<Rightarrow>
   article list \<Rightarrow> edge list \<times> world \<Rightarrow> error + (edge list \<times> world)" where
  "scan_candidates fz wiq article ref_title ref_doi ref_authors [] (es, w) = Inr (es, w)"
| "scan_candidates fz wiq article ref_title ref_doi ref_authors (art # arts) (es, w) =
     (case author art of
        None \<Rightarrow> Inl TypeError
      | Some a \<Rightarrow>
          if title_id art = title_id article then
            scan_candidates fz wiq article ref_title ref_doi ref_authors arts (es, w)
          else
            (case citation_matching fz (doi art) ref_doi (title art) ref_title
                    (find_author a) ref_authors wiq w of
               Inl e \<Rightarrow> Inl e
             | Inr (matched, w') \<Rightarrow>
                 if matched then
                   Inr (es @ [\<lparr>from_key = bibtex_key article, to_key = bibtex_key art\<rparr>], w')
                 else
                   scan_candidates fz wiq article ref_title ref_doi ref_authors arts (es, w')))"

text \<open>
  The loop over the references that were found in the document of \<open>article\<close>.
  \<^verbatim>\<open>ref.find(title).text\<close> raises \<^verbatim>\<open>AttributeError\<close> when there is no title element.
\<close>

fun process_refs ::
  "fuzz \<Rightarrow> bool \<Rightarrow> article list \<Rightarrow> article \<Rightarrow> bibl list \<Rightarrow> edge list \<times> world \<Rightarrow>
   error + (edge list \<times> world)" where
  "process_refs fz wiq articles article [] st = Inr st"
| "process_refs fz wiq articles article (ref # refs) st =
     (case title_text ref of
        None \<Rightarrow> Inl AttributeError
      | Some ref_title \<Rightarrow>
          (let ref_doi = (case doi_text ref of None \<Rightarrow> None | Some t \<Rightarrow> t)
           in case scan_candidates fz wiq article ref_title ref_doi (surnames ref)
                     articles st of
                Inl e \<Rightarrow> Inl e
              | Inr st' \<Rightarrow> process_refs fz wiq articles article refs st'))"

definition empty_tei :: "string list" where
  "empty_tei =
     [''[NO_BLOCKS] PDF parsing resulted in empty content'',
      ''[BAD_INPUT_DATA] PDF to XML conversion failed with error code: 1'']"

text \<open>
  The body of the loop \<^verbatim>\<open>for article in articles\<close> that adds the edges. The message
  for a TEI file that is not there is built with \<^verbatim>\<open>+\<close>, which raises \<^verbatim>\<open>TypeError\<close>
  when the title is not a text.
\<close>

definition process_article ::
  "env \<Rightarrow> string \<Rightarrow> bool \<Rightarrow> article list \<Rightarrow> article \<Rightarrow> edge list \<times> world \<Rightarrow>
   error + (edge list \<times> world)" where
  "process_article e tei wiq articles article st =
     (case file_field article of
        None \<Rightarrow> Inr st
      | Some f \<Rightarrow>
          (let tei_file = tei_path tei f
           in case read_file e tei_file of
                None \<Rightarrow>
                  (case title article of
                     None \<Rightarrow> Inl TypeError
                   | Some t \<Rightarrow>
                       Inr (fst st, (snd st)\<lparr>out := out (snd st) @
                              [Fail1 (''tei-file not found for '' @ t)]\<rparr>))
              | Some tei_content \<Rightarrow>
                  if tei_content \<in> set empty_tei then
                    Inr (fst st, (snd st)\<lparr>out := out (snd st) @
                           [Fail2 ''tei-file is empty for'' (title article)]\<rparr>)
                  else
                    (case parse_tei e tei_content of
                       None \<Rightarrow> Inl ParseError
                     | Some refs \<Rightarrow>
                         process_refs (scorer e) wiq articles article refs
                           (fst st, (snd st)\<lparr>out := out (snd st) @
                              [Print [], Text (''Processing '' @ tei_file)]\<rparr>))))"

fun add_edges ::
  "env \<Rightarrow> string \<Rightarrow> bool \<Rightarrow> article list \<Rightarrow> article list \<Rightarrow> edge list \<times> world \<Rightarrow>
   error + (edge list \<times> world)" where
  "add_edges e tei wiq articles [] st = Inr st"
| "add_edges e tei wiq articles (article # rest) st =
     (case process_article e tei wiq articles article st of
        Inl err \<Rightarrow> Inl err
      | Inr st' \<Rightarrow> add_edges e tei wiq articles rest st')"

subsection \<open>The graph\<close>

record graph =
  years :: "int list"
  year_arts :: "int \<rightharpoonup> string list"
  articles :: "article_dict list"
  edges :: "edge list"

text \<open>
  \<^verbatim>\<open>build_graph_model\<close>, from the loaded bibliography to the graph that is written to
  the output file. \<^verbatim>\<open>min(years)\<close> raises \<^verbatim>\<open>ValueError\<close> on the empty list.
\<close>

definition build_graph_model ::
  "env \<Rightarrow> article list \<Rightarrow> string \<Rightarrow> bool \<Rightarrow> bool \<Rightarrow> world \<Rightarrow> error + (graph \<times> world)" where
  "build_graph_model e bib tei original_bibtex_keys without_interactive_queries w =
     (let w0 = w\<lparr>out := out w @
                  [Divider ''Build citation graph model from references in PDFs'']\<rparr>;
          arts = hash_keys e original_bibtex_keys bib
      in case collect_years arts of
           Inl err \<Rightarrow> Inl err
         | Inr ys \<Rightarrow>
             (case ys of
                [] \<Rightarrow> Inl ValueError
              | y # rest \<Rightarrow>
                  (case add_year_arts [fold min rest y .. fold max rest y] arts Map.empty of
                     Inl err \<Rightarrow> Inl err
                   | Inr ya \<Rightarrow>
                       (case add_articles arts of
                          Inl err \<Rightarrow> Inl err
                        | Inr ds \<Rightarrow>
                            (case add_edges e tei without_interactive_queries arts arts
                                    ([], w0) of
                               Inl err \<Rightarrow> Inl err
                             | Inr (es, w') \<Rightarrow>
                                 Inr (\<lparr>years = ys, year_arts = ya, articles = ds,
                                       edges = es\<rparr>, w'))))))"

section \<open>Shorthands and a sample run\<close>

text \<open>
  The edge that the builder adds from a source to a candidate, the candidates that are
  not skipped for a source, and the keys of the articles of one year.
\<close>

abbreviation edge_between :: "article \<Rightarrow> article \<Rightarrow> edge" where
  "edge_between article art \<equiv> \<lparr>from_key = bibtex_key article, to_key = bibtex_key art\<rparr>"

abbreviation others :: "article list \<Rightarrow> article \<Rightarrow> article set" where
  "others arts article \<equiv> {art \<in> set arts. title_id art \<noteq> title_id article}"

abbreviation keys_of_year :: "article list \<Rightarrow> int \<Rightarrow> string list" where
  "keys_of_year arts y \<equiv> map bibtex_key (filter (\<lambda>a. int_of_year (year a) = Inr y) arts)"


text \<open>The messages of a console log that report a problem (\<^verbatim>\<open>msg.fail\<close>, \<^verbatim>\<open>msg.warn\<close>).\<close>

definition warnings :: "event list \<Rightarrow> event list" where
  "warnings evs =
     filter (\<lambda>ev. case ev of Fail1 _ \<Rightarrow> True | Fail2 _ _ \<Rightarrow> True | Warn _ \<Rightarrow> True
                      | _ \<Rightarrow> False) evs"

text \<open>
  A bibliography, a TEI directory and a session on which the definitions are run below.
  The document of \<open>paper_y\<close> has two references, the first with the DOI of
  \<open>paper_x\<close> and with the title and first author of \<open>paper_t\<close>. \<open>paper_z\<close> has no
  TEI file, the TEI file of \<open>paper_v\<close> holds the text that marks an empty parse, and
  \<open>paper_u\<close> has neither year nor title.
\<close>

definition sample_refs :: "bibl list" where
  "sample_refs =
     [\<lparr>title_text = Some (Some ''Deep Learning''), doi_text = Some (Some ''10.1234/abc''),
       surnames = [''Smith'']\<rparr>,
      \<lparr>title_text = Some None, doi_text = None, surnames = []\<rparr>]"

text \<open>The MD5 digests of the keys that occur below; other keys are not used.\<close>

definition sample_md5 :: "string \<Rightarrow> string" where
  "sample_md5 key =
     (if key = ''Watson1995'' then ''28afd5c68c33295d79a286ab1b0e6e2c''
      else if key = ''Hughes2003a'' then ''28afd5aea6d939188bec99d882cf1289''
      else if key = ''X2010'' then ''ee875b1a0e90773e8de043b67c19387b''
      else if key = ''Y2013'' then ''9ed841e98dd56b65b09c476a941d38fd''
      else ''d41d8cd98f00b204e9800998ecf8427e'')"

definition sample_env :: env where
  "sample_env =
     \<lparr>scorer = table_fuzz [],
      md5_hexdigest = sample_md5,
      read_file = (\<lambda>p. if p = ''tei/y.tei.xml'' then Some ''<TEI>y</TEI>''
                        else if p = ''tei/v.tei.xml''
                          then Some ''[NO_BLOCKS] PDF parsing resulted in empty content''
                        else None),
      parse_tei = (\<lambda>t. if t = ''<TEI>y</TEI>'' then Some sample_refs else None)\<rparr>"

definition paper_x :: article where
  "paper_x = \<lparr>bibtex_key = ''X2010'', year = YearStr ''2010'', author = Some ''Smith, John'',
              title = Some ''Deep Learning'', title_id = 1, file_field = None,
              doi = Some ''10.1234/abc''\<rparr>"

definition paper_y :: article where
  "paper_y = \<lparr>bibtex_key = ''Y2013'', year = YearInt 2013,
              author = Some ''Jones, Bob and Lee, Ann'', title = Some ''Cooking'',
              title_id = 2, file_field = Some ''pdfs/y.pdf'', doi = None\<rparr>"

definition paper_x2 :: article where
  "paper_x2 = \<lparr>bibtex_key = ''X2011'', year = YearInt 2011, author = Some ''Smith, John'',
               title = Some ''Deep Learning (preprint)'', title_id = 3, file_field = None,
               doi = Some ''https://doi.org/10.1234/abc''\<rparr>"


definition paper_z :: article where
  "paper_z = \<lparr>bibtex_key = ''Z2013'', year = YearInt 2013, author = Some ''Zhou, Li'',
              title = Some ''Baking'', title_id = 4, file_field = Some ''pdfs/z.pdf'',
              doi = None\<rparr>"

definition paper_v :: article where
  "paper_v = \<lparr>bibtex_key = ''V2012'', year = YearInt 2012, author = Some ''Vu, An'',
              title = Some ''Frying'', title_id = 5, file_field = Some ''pdfs/v.pdf'',
              doi = None\<rparr>"

definition paper_u :: article where
  "paper_u = \<lparr>bibtex_key = ''U'', year = YearNull, author = Some ''Ueda, Ken'',
              title = None, title_id = 6, file_field = Some ''pdfs/u.pdf'', doi = None\<rparr>"

text \<open>
  Two articles whose keys are different and whose hashed keys are the same: the first
  six characters of both digests are \<^verbatim>\<open>28afd5\<close>. The document of \<open>hughes\<close> is the
  one of \<open>paper_y\<close>, whose first reference has the DOI of \<open>watson\<close>.
\<close>

definition watson :: article where
  "watson = \<lparr>bibtex_key = ''Watson1995'', year = YearInt 2002,
             author = Some ''Watson, Ian'', title = Some ''Deep Learning'', title_id = 7,
             file_field = None, doi = Some ''10.1234/abc''\<rparr>"

definition hughes :: article where
  "hughes = \<lparr>bibtex_key = ''Hughes2003a'', year = YearInt 2003,
             author = Some ''Hughes, Ann'', title = Some ''Cooking'', title_id = 8,
             file_field = Some ''pdfs/y.pdf'', doi = None\<rparr>"

definition collision_graph :: graph where
  "collision_graph =
     \<lparr>years = [2002, 2003],
      year_arts = [2002 \<mapsto> [''28afd5''], 2003 \<mapsto> [''28afd5'']],
      articles =
        [\<lparr>dict_title = Some ''Deep Learning'', dict_author = [''Watson''],
           dict_key = ''28afd5'', dict_year = YearInt 2002\<rparr>,
         \<lparr>dict_title = Some ''Cooking'', dict_author = [''Hughes''],
           dict_key = ''28afd5'', dict_year = YearInt 2003\<rparr>],
      edges = [\<lparr>from_key = ''28afd5'', to_key = ''28afd5''\<rparr>]\<rparr>"

definition fresh :: world where
  "fresh = \<lparr>user_answers = [], stdin = [], out = []\<rparr>"

definition divider :: event where
  "divider = Divider ''Build citation graph model from references in PDFs''"

definition sample_graph :: graph where
  "sample_graph =
     \<lparr>years = [2010, 2013],
      year_arts = [2010 \<mapsto> [''X2010''], 2011 \<mapsto> [], 2012 \<mapsto> [], 2013 \<mapsto> [''Y2013'']],
      articles =
        [\<lparr>dict_title = Some ''Deep Learning'', dict_author = [''Smith''],
           dict_key = ''X2010'', dict_year = YearStr ''2010''\<rparr>,
         \<lparr>dict_title = Some ''Cooking'', dict_author = [''Jones'', ''Lee''],
           dict_key = ''Y2013'', dict_year = YearInt 2013\<rparr>],
      edges = [\<lparr>from_key = ''Y2013'', to_key = ''X2010''\<rparr>]\<rparr>"

definition sample_session :: world where
  "sample_session =
     \<lparr>user_answers = [], stdin = [],
      out = [divider, Print [], Text ''Processing tei/y.tei.xml'']\<rparr>"

section \<open>Properties of the Match Decision Engine\<close>

text \<open>
  C1. When the DOI is extracted from both DOI fields and the two extracted DOIs are the
  same, \<^verbatim>\<open>citation_matching\<close> returns True, whatever the scorers, the titles, the
  author lists and the mode are; nothing is asked and the session is left as it was.
\<close>

theorem doi_match_decides:
  assumes "find_doi doi_art = Some d" and "find_doi doi_ref = Some d"
  shows "citation_matching fz doi_art doi_ref title_art title_ref author_art authors_ref
           without_interactive_queries w = Inr (True, w)"
  using assms by (simp add: citation_matching_def)

theorem doi_match_decides_witness:
  "find_doi (Some ''10.1234/abc'') = Some ''10.1234/abc'' \<and>
   find_doi (Some ''https://doi.org/10.1234/abc'') = Some ''10.1234/abc'' \<and>
   citation_matching (table_fuzz []) (Some ''10.1234/abc'') (Some ''https://doi.org/10.1234/abc'')
     (Some ''Deep Learning for NLP'') (Some ''A Cookbook'') [''Smith''] [''Jones'', ''Lee'']
     False \<lparr>user_answers = [], stdin = [], out = []\<rparr>
   = Inr (True, \<lparr>user_answers = [], stdin = [], out = []\<rparr>)"
proof -
  have a: "find_doi (Some ''10.1234/abc'') = Some ''10.1234/abc''"
    by code_simp
  have r: "find_doi (Some ''https://doi.org/10.1234/abc'') = Some ''10.1234/abc''"
    by code_simp
  show ?thesis
    using a r doi_match_decides [OF a r] by simp
qed

text \<open>
  C2. When the DOI step does not match and both titles are texts, the decision follows
  from the two scores of the normalised titles and the author score: True when the
  titles match (full score above 90, or partial score above 95 with full score above 70)
  and the author score is at least 2; the answer of \<^verbatim>\<open>ask_user\<close> when the titles match
  but the author score is below 2, and also when the titles do not match but the partial
  score is above 90 with the full score above 60; False in every other case.
\<close>

theorem title_author_decision:
  assumes "\<not> (find_doi doi_art = find_doi doi_ref \<and> find_doi doi_art \<noteq> None)"
    and "title_art = Some t_art" and "title_ref = Some t_ref"
  shows "citation_matching fz doi_art doi_ref title_art title_ref author_art authors_ref
           without_interactive_queries w =
         (let a = clean_title t_art; r = clean_title t_ref;
              full_ratio = ratio fz a r; part_ratio = partial_ratio fz a r;
              score = fst (find_matching_authors fz author_art authors_ref);
              titles_match = (full_ratio > 90 \<or> (part_ratio > 95 \<and> full_ratio > 70))
          in if titles_match \<and> score \<ge> 2 then Inr (True, w)
             else if titles_match \<and> score < 2
                     \<or> \<not> titles_match \<and> part_ratio > 90 \<and> full_ratio > 60
               then ask_user without_interactive_queries (a, r, author_art, authors_ref) w
             else Inr (False, w))"
  using assms by (auto simp: citation_matching_def Let_def)

theorem title_author_decision_witness:
  "citation_matching (table_fuzz []) None None (Some ''Deep {Learning} for NLP'')
     (Some ''DEEP LEARNING FOR NLP'') [''Smith'', ''Lee''] [''Smith'', ''Lee''] False
     \<lparr>user_answers = [], stdin = [], out = []\<rparr>
   = Inr (True, \<lparr>user_answers = [], stdin = [], out = []\<rparr>) \<and>
   citation_matching (table_fuzz []) None None (Some ''Deep {Learning} for NLP'')
     (Some ''DEEP LEARNING FOR NLP'') [''Smith'', ''Lee''] [''Jones''] False
     \<lparr>user_answers = [], stdin = [''n''], out = []\<rparr>
   = ask_user False (''DEEP LEARNING FOR NLP'', ''DEEP LEARNING FOR NLP'',
                     [''Smith'', ''Lee''], [''Jones''])
       \<lparr>user_answers = [], stdin = [''n''], out = []\<rparr> \<and>
   citation_matching (table_fuzz [((''DEEP'', ''DEEPNETS''), (65, 96))]) None None
     (Some ''Deep'') (Some ''deepnets'') [''Smith''] [''Smith''] False
     \<lparr>user_answers = [], stdin = [''y''], out = []\<rparr>
   = ask_user False (''DEEP'', ''DEEPNETS'', [''Smith''], [''Smith''])
       \<lparr>user_answers = [], stdin = [''y''], out = []\<rparr> \<and>
   citation_matching (table_fuzz []) None None (Some ''Deep'') (Some ''A Cookbook'')
     [''Smith''] [''Smith''] False \<lparr>user_answers = [], stdin = [''y''], out = []\<rparr>
   = Inr (False, \<lparr>user_answers = [], stdin = [''y''], out = []\<rparr>)"
proof -
  have d: "\<not> (find_doi None = find_doi None \<and> find_doi None \<noteq> None)"
    by (simp add: find_doi_def)
  have c1: "clean_title ''Deep {Learning} for NLP'' = ''DEEP LEARNING FOR NLP''"
    and c2: "clean_title ''DEEP LEARNING FOR NLP'' = ''DEEP LEARNING FOR NLP''"
    and c3: "clean_title ''Deep'' = ''DEEP''"
    and c4: "clean_title ''deepnets'' = ''DEEPNETS''"
    and c5: "clean_title ''A Cookbook'' = ''A COOKBOOK''"
    by code_simp+
  have s1: "find_matching_authors (table_fuzz []) [''Smith'', ''Lee''] [''Smith'', ''Lee'']
              = (6, 2)"
    by code_simp
  have s2: "find_matching_authors (table_fuzz []) [''Smith'', ''Lee''] [''Jones''] = (0, 3)"
    by code_simp
  have r1: "ratio (table_fuzz []) ''DEEP LEARNING FOR NLP'' ''DEEP LEARNING FOR NLP'' = 100"
    by (simp add: table_fuzz_def)
  have r3: "ratio (table_fuzz [((''DEEP'', ''DEEPNETS''), (65, 96))]) ''DEEP'' ''DEEPNETS'' = 65"
    and p3: "partial_ratio (table_fuzz [((''DEEP'', ''DEEPNETS''), (65, 96))]) ''DEEP''
               ''DEEPNETS'' = 96"
    by (simp_all add: table_fuzz_def)
  have r4: "ratio (table_fuzz []) ''DEEP'' ''A COOKBOOK'' = 0"
    and p4: "partial_ratio (table_fuzz []) ''DEEP'' ''A COOKBOOK'' = 0"
    by (simp_all add: table_fuzz_def)
  show ?thesis
    using title_author_decision [OF d refl refl, of "table_fuzz []"]
          title_author_decision [OF d refl refl,
            of "table_fuzz [((''DEEP'', ''DEEPNETS''), (65, 96))]"]
    by (simp add: Let_def c1 c2 c3 c4 c5 s1 s2 r1 r3 p3 r4 p4)
qed

section \<open>Properties of the Interactive Disambiguator\<close>

text \<open>
  C3. In automated mode \<^verbatim>\<open>ask_user\<close> answers False to every question and leaves the
  session as it was: nothing is printed, no line is read and nothing is recorded. So a
  pair that the engine hands to \<^verbatim>\<open>ask_user\<close> is not matched in automated mode.
\<close>

theorem automated_mode_answers_no:
  "ask_user True question w = Inr (False, w) \<and>
   (\<not> (find_doi doi_art = find_doi doi_ref \<and> find_doi doi_art \<noteq> None) \<longrightarrow>
    (let a = clean_title t_art; r = clean_title t_ref;
         full_ratio = ratio fz a r; part_ratio = partial_ratio fz a r;
         score = fst (find_matching_authors fz author_art authors_ref);
         titles_match = (full_ratio > 90 \<or> (part_ratio > 95 \<and> full_ratio > 70))
     in titles_match \<and> score < 2 \<or> \<not> titles_match \<and> part_ratio > 90 \<and> full_ratio > 60) \<longrightarrow>
    citation_matching fz doi_art doi_ref (Some t_art) (Some t_ref) author_art authors_ref
      True w = Inr (False, w))"
  by (auto simp: ask_user_def citation_matching_def Let_def)

theorem automated_mode_answers_no_witness:
  "ask_user True (''DEEP'', ''DEEPNETS'', [''Smith''], [''Smith''])
     \<lparr>user_answers = [], stdin = [''y''], out = []\<rparr>
   = Inr (False, \<lparr>user_answers = [], stdin = [''y''], out = []\<rparr>) \<and>
   citation_matching (table_fuzz [((''DEEP'', ''DEEPNETS''), (65, 96))]) None None
     (Some ''Deep'') (Some ''deepnets'') [''Smith''] [''Smith''] True
     \<lparr>user_answers = [], stdin = [''y''], out = []\<rparr>
   = Inr (False, \<lparr>user_answers = [], stdin = [''y''], out = []\<rparr>)"
proof -
  have d: "\<not> (find_doi None = find_doi None \<and> find_doi None \<noteq> None)"
    by (simp add: find_doi_def)
  have c3: "clean_title ''Deep'' = ''DEEP''"
    and c4: "clean_title ''deepnets'' = ''DEEPNETS''"
    by code_simp+
  have r3: "ratio (table_fuzz [((''DEEP'', ''DEEPNETS''), (65, 96))]) ''DEEP'' ''DEEPNETS'' = 65"
    and p3: "partial_ratio (table_fuzz [((''DEEP'', ''DEEPNETS''), (65, 96))]) ''DEEP''
               ''DEEPNETS'' = 96"
    by (simp_all add: table_fuzz_def)
  show ?thesis
    using d automated_mode_answers_no [of "(''DEEP'', ''DEEPNETS'', [''Smith''], [''Smith''])"
        "\<lparr>user_answers = [], stdin = [''y''], out = []\<rparr>" None None "''Deep''" "''deepnets''"
        "table_fuzz [((''DEEP'', ''DEEPNETS''), (65, 96))]" "[''Smith'']" "[''Smith'']"]
    by (simp add: Let_def c3 c4 r3 p3)
qed

lemma cached_answer_append:
  "cached_answer q xs = Some a \<Longrightarrow> cached_answer q (xs @ ys) = Some a"
  by (induction xs) (auto split: if_splits)

lemma cached_answer_snoc_new:
  "cached_answer q xs = None \<Longrightarrow> cached_answer q (xs @ [(q, a)]) = Some a"
  by (induction xs) (auto split: if_splits)

lemma ask_user_records:
  assumes "ask_user False q w = Inr (a, w')"
  shows "cached_answer q (user_answers w') = Some a"
  using assms
  by (auto simp: ask_user_def cached_answer_snoc_new split: option.splits list.splits)

lemma ask_user_keeps:
  assumes "ask_user mode q' w = Inr (a', w')" and "cached_answer q (user_answers w) = Some a"
  shows "cached_answer q (user_answers w') = Some a"
  using assms
  by (auto simp: ask_user_def cached_answer_append split: if_splits option.splits list.splits)

lemma ask_all_keeps:
  "ask_all calls w = Inr w' \<Longrightarrow> cached_answer q (user_answers w) = Some a \<Longrightarrow>
   cached_answer q (user_answers w') = Some a"
proof (induction calls arbitrary: w)
  case Nil
  then show ?case by simp
next
  case (Cons call calls)
  obtain mode q' where call: "call = (mode, q')" by (cases call)
  from Cons.prems(1) call obtain a' w1 where
    step: "ask_user mode q' w = Inr (a', w1)" and rest: "ask_all calls w1 = Inr w'"
    by (auto split: sum.splits)
  from ask_user_keeps [OF step Cons.prems(2)] have "cached_answer q (user_answers w1) = Some a" .
  with Cons.IH [OF rest] show ?case .
qed

lemma ask_user_cached:
  "cached_answer q (user_answers w) = Some a \<Longrightarrow> ask_user False q w = Inr (a, w)"
  by (simp add: ask_user_def)

text \<open>
  C4. Once a call of \<^verbatim>\<open>ask_user\<close> in interactive mode has returned for a question,
  every later interactive call with the same question in the session returns the same
  answer and leaves the session as it is: nothing is printed and no line is read.
\<close>

theorem recorded_answer_is_reused:
  assumes "ask_user False question w0 = Inr (answer, w1)"
    and "ask_all calls w1 = Inr w2"
  shows "ask_user False question w2 = Inr (answer, w2)"
  by (rule ask_user_cached, rule ask_all_keeps [OF assms(2)], rule ask_user_records [OF assms(1)])

theorem recorded_answer_is_reused_witness:
  "ask_user False (''A'', ''B'', [''Smith''], [''Lee''])
     \<lparr>user_answers = [], stdin = [''y'', ''n''], out = []\<rparr>
   = Inr (True, \<lparr>user_answers = [((''A'', ''B'', [''Smith''], [''Lee'']), True)],
                 stdin = [''n''], out = prompt (''A'', ''B'', [''Smith''], [''Lee''])\<rparr>) \<and>
   ask_all [(False, (''C'', ''D'', [], [])), (True, (''A'', ''B'', [''Smith''], [''Lee'']))]
     \<lparr>user_answers = [((''A'', ''B'', [''Smith''], [''Lee'']), True)],
      stdin = [''n''], out = prompt (''A'', ''B'', [''Smith''], [''Lee''])\<rparr>
   = Inr \<lparr>user_answers = [((''A'', ''B'', [''Smith''], [''Lee'']), True),
                           ((''C'', ''D'', [], []), False)],
          stdin = [],
          out = prompt (''A'', ''B'', [''Smith''], [''Lee'']) @ prompt (''C'', ''D'', [], [])\<rparr> \<and>
   ask_user False (''A'', ''B'', [''Smith''], [''Lee''])
     \<lparr>user_answers = [((''A'', ''B'', [''Smith''], [''Lee'']), True),
                      ((''C'', ''D'', [], []), False)],
      stdin = [],
      out = prompt (''A'', ''B'', [''Smith''], [''Lee'']) @ prompt (''C'', ''D'', [], [])\<rparr>
   = Inr (True,
      \<lparr>user_answers = [((''A'', ''B'', [''Smith''], [''Lee'']), True),
                      ((''C'', ''D'', [], []), False)],
      stdin = [],
      out = prompt (''A'', ''B'', [''Smith''], [''Lee'']) @ prompt (''C'', ''D'', [], [])\<rparr>)"
proof -
  have first: "ask_user False (''A'', ''B'', [''Smith''], [''Lee''])
     \<lparr>user_answers = [], stdin = [''y'', ''n''], out = []\<rparr>
   = Inr (True, \<lparr>user_answers = [((''A'', ''B'', [''Smith''], [''Lee'']), True)],
                 stdin = [''n''], out = prompt (''A'', ''B'', [''Smith''], [''Lee''])\<rparr>)"
    by (simp add: ask_user_def)
  have later: "ask_all [(False, (''C'', ''D'', [], [])), (True, (''A'', ''B'', [''Smith''], [''Lee'']))]
     \<lparr>user_answers = [((''A'', ''B'', [''Smith''], [''Lee'']), True)],
      stdin = [''n''], out = prompt (''A'', ''B'', [''Smith''], [''Lee''])\<rparr>
   = Inr \<lparr>user_answers = [((''A'', ''B'', [''Smith''], [''Lee'']), True),
                           ((''C'', ''D'', [], []), False)],
          stdin = [],
          out = prompt (''A'', ''B'', [''Smith''], [''Lee'']) @ prompt (''C'', ''D'', [], [])\<rparr>"
    by (simp add: ask_user_def)
  show ?thesis
    using first later recorded_answer_is_reused [OF first later] by simp
qed

section \<open>Properties of the Graph Builder\<close>

subsection \<open>The sample run\<close>

lemma sample_years: "collect_years [paper_x, paper_y] = Inr [2010, 2013]"
  by code_simp

lemma sample_year_arts:
  "this_year_arts 2010 [paper_x, paper_y] = Inr [''X2010'']"
  "this_year_arts 2011 [paper_x, paper_y] = Inr []"
  "this_year_arts 2012 [paper_x, paper_y] = Inr []"
  "this_year_arts 2013 [paper_x, paper_y] = Inr [''Y2013'']"
  by code_simp+

lemma sample_articles:
  "add_articles [paper_x, paper_y] =
     Inr [\<lparr>dict_title = Some ''Deep Learning'', dict_author = [''Smith''],
            dict_key = ''X2010'', dict_year = YearStr ''2010''\<rparr>,
          \<lparr>dict_title = Some ''Cooking'', dict_author = [''Jones'', ''Lee''],
            dict_key = ''Y2013'', dict_year = YearInt 2013\<rparr>]"
  by code_simp

lemma sample_edges:
  "add_edges sample_env ''tei'' False [paper_x, paper_y] [paper_x, paper_y]
     ([], \<lparr>user_answers = [], stdin = [], out = [divider]\<rparr>) =
   Inr ([\<lparr>from_key = ''Y2013'', to_key = ''X2010''\<rparr>], sample_session)"
  by code_simp

lemma sample_build:
  "build_graph_model sample_env [paper_x, paper_y] ''tei'' True False fresh
     = Inr (sample_graph, sample_session)"
  by (simp add: build_graph_model_def hash_keys_def sample_years sample_year_arts
        sample_articles sample_edges fresh_def sample_graph_def divider_def [symmetric]
        upto_rec1 Let_def
      del: collect_years.simps this_year_arts.simps add_articles.simps add_edges.simps)

lemma sample_keys: "hash_keys sample_env True [paper_x, paper_y] = [paper_x, paper_y]"
  by (simp add: hash_keys_def)

subsection \<open>Edges that the loops add\<close>

lemma scan_candidates_adds:
  "scan_candidates fz wiq article rt rd ra arts (es, w) = Inr (es', w') \<Longrightarrow>
   es' = es \<or> (\<exists>art \<in> others arts article. es' = es @ [edge_between article art])"
proof (induction arts arbitrary: w)
  case Nil
  then show ?case by simp
next
  case (Cons art arts)
  then show ?case
    by (fastforce split: option.splits if_splits sum.splits prod.splits)
qed

lemma process_refs_adds:
  "process_refs fz wiq arts article refs (es, w) = Inr (es', w') \<Longrightarrow>
   \<exists>new. es' = es @ new \<and> length new \<le> length refs \<and>
         set new \<subseteq> edge_between article ` others arts article"
proof (induction refs arbitrary: es w)
  case Nil
  then show ?case by simp
next
  case (Cons ref refs)
  from Cons.prems obtain rt es1 w1 where
    scan: "scan_candidates fz wiq article rt
             (case doi_text ref of None \<Rightarrow> None | Some t \<Rightarrow> t) (surnames ref) arts (es, w)
           = Inr (es1, w1)"
    and rest: "process_refs fz wiq arts article refs (es1, w1) = Inr (es', w')"
    by (auto simp: Let_def split: option.splits sum.splits)
  from scan_candidates_adds [OF scan] obtain one where
    one: "es1 = es @ one" "length one \<le> 1" "set one \<subseteq> edge_between article ` others arts article"
    by (cases "es1 = es") auto
  from Cons.IH [OF rest] obtain new where
    new: "es' = es1 @ new" "length new \<le> length refs"
         "set new \<subseteq> edge_between article ` others arts article"
    by blast
  have "es' = es @ (one @ new)" using one(1) new(1) by simp
  moreover have "length (one @ new) \<le> length (ref # refs)" using one(2) new(2) by simp
  moreover have "set (one @ new) \<subseteq> edge_between article ` others arts article"
    using one(3) new(3) by simp
  ultimately show ?case by blast
qed

lemma process_article_adds:
  assumes "process_article e tei wiq arts article (es, w) = Inr (es', w')"
  shows "\<exists>new. es' = es @ new \<and> set new \<subseteq> edge_between article ` others arts article"
proof (cases "es' = es")
  case True
  then show ?thesis by simp
next
  case False
  with assms obtain refs w1 where
    "process_refs (scorer e) wiq arts article refs (es, w1) = Inr (es', w')"
    by (auto simp: process_article_def Let_def split: option.splits if_splits)
  from process_refs_adds [OF this] show ?thesis by blast
qed

lemma add_edges_adds:
  "add_edges e tei wiq arts srcs (es, w) = Inr (es', w') \<Longrightarrow>
   \<exists>new. es' = es @ new \<and>
         set new \<subseteq> (\<Union>article \<in> set srcs. edge_between article ` others arts article)"
proof (induction srcs arbitrary: es w)
  case Nil
  then show ?case by simp
next
  case (Cons article srcs)
  from Cons.prems obtain es1 w1 where
    step: "process_article e tei wiq arts article (es, w) = Inr (es1, w1)"
    and rest: "add_edges e tei wiq arts srcs (es1, w1) = Inr (es', w')"
    by (auto split: sum.splits)
  from process_article_adds [OF step] obtain one where
    one: "es1 = es @ one" "set one \<subseteq> edge_between article ` others arts article"
    by blast
  from Cons.IH [OF rest] obtain new where
    new: "es' = es1 @ new"
         "set new \<subseteq> (\<Union>article \<in> set srcs. edge_between article ` others arts article)"
    by blast
  have "es' = es @ (one @ new)" using one(1) new(1) by simp
  moreover have "set (one @ new) \<subseteq>
      (\<Union>article \<in> set (article # srcs). edge_between article ` others arts article)"
    using one(2) new(2) by auto
  ultimately show ?case by blast
qed

lemma build_edges:
  assumes "build_graph_model e bib tei obk wiq w = Inr (g, w')"
  shows "\<exists>w0. add_edges e tei wiq (hash_keys e obk bib) (hash_keys e obk bib) ([], w0)
           = Inr (edges g, w')"
  using assms
  by (auto simp: build_graph_model_def Let_def split: sum.splits list.splits)


subsection \<open>The year phases\<close>

lemma hash_keys_year: "map year (hash_keys e obk bib) = map year bib"
  by (simp add: hash_keys_def)

lemma hash_keys_Nil: "hash_keys e obk bib = [] \<longleftrightarrow> bib = []"
  by (simp add: hash_keys_def)

lemma int_of_year_Null: "int_of_year y = Inr i \<Longrightarrow> y \<noteq> YearNull"
  by (auto simp: int_of_year_def)

lemma this_year_arts_Inr:
  "this_year_arts y arts = Inr ks \<longleftrightarrow>
   (\<forall>a \<in> set arts. \<exists>i. int_of_year (year a) = Inr i) \<and> ks = keys_of_year arts y"
proof (induction arts arbitrary: ks)
  case Nil
  show ?case by auto
next
  case (Cons a arts)
  show ?case
  proof (cases "int_of_year (year a)")
    case (Inl err)
    then show ?thesis by simp
  next
    case (Inr i)
    show ?thesis
    proof (cases "this_year_arts y arts")
      case (Inl err)
      with Inr Cons.IH show ?thesis by auto
    next
      case r: (Inr ks')
      with Inr Cons.IH [of ks'] show ?thesis by auto
    qed
  qed
qed

lemma add_year_arts_Inr:
  "add_year_arts ys arts m = Inr m' \<Longrightarrow>
   (ys \<noteq> [] \<longrightarrow> (\<forall>a \<in> set arts. \<exists>i. int_of_year (year a) = Inr i)) \<and>
   m' = (\<lambda>y. if y \<in> set ys then Some (keys_of_year arts y) else m y)"
proof (induction ys arbitrary: m)
  case Nil
  then show ?case by simp
next
  case (Cons y ys)
  from Cons.prems obtain ks where
    ks: "this_year_arts y arts = Inr ks"
    and rest: "add_year_arts ys arts (m(y \<mapsto> ks)) = Inr m'"
    by (auto split: sum.splits)
  from ks have conv: "\<forall>a \<in> set arts. \<exists>i. int_of_year (year a) = Inr i"
    and ks_eq: "ks = keys_of_year arts y"
    by (simp_all add: this_year_arts_Inr)
  from Cons.IH [OF rest] have
    "m' = (\<lambda>z. if z \<in> set ys then Some (keys_of_year arts z) else (m(y \<mapsto> ks)) z)"
    by simp
  with ks_eq have "m' = (\<lambda>z. if z \<in> set (y # ys) then Some (keys_of_year arts z) else m z)"
    by auto
  with conv show ?case by simp
qed

lemma collect_years_Inr:
  "collect_years arts = Inr ys \<Longrightarrow>
   map Inr ys = map (\<lambda>a. int_of_year (year a)) (filter (\<lambda>a. year a \<noteq> YearNull) arts)"
proof (induction arts arbitrary: ys)
  case Nil
  then show ?case by simp
next
  case (Cons a arts)
  then show ?case
    by (cases "year a = YearNull") (auto split: sum.splits)
qed

lemma collect_years_all_null:
  "\<forall>a \<in> set arts. year a = YearNull \<Longrightarrow> collect_years arts = Inr []"
  by (induction arts) auto

lemma build_years:
  assumes "build_graph_model e bib tei obk wiq w = Inr (g, w')"
  shows "\<exists>y rest. years g = y # rest \<and>
           collect_years (hash_keys e obk bib) = Inr (y # rest) \<and>
           add_year_arts [fold min rest y .. fold max rest y] (hash_keys e obk bib) Map.empty
             = Inr (year_arts g)"
  using assms
  by (auto simp: build_graph_model_def Let_def split: sum.splits list.splits)

lemma fold_min_Min: "fold min rest (y::int) = Min (set (y # rest))"
  by (simp only: Min.set_eq_fold)

lemma fold_max_Max: "fold max rest (y::int) = Max (set (y # rest))"
  by (simp only: Max.set_eq_fold)

lemma build_convertible:
  assumes "build_graph_model e bib tei obk wiq w = Inr (g, w')"
  shows "\<forall>a \<in> set (hash_keys e obk bib). \<exists>i. int_of_year (year a) = Inr i"
proof -
  from build_years [OF assms] obtain y rest where
    ya: "add_year_arts [fold min rest y .. fold max rest y] (hash_keys e obk bib) Map.empty
           = Inr (year_arts g)"
    by blast
  have "Min (set (y # rest)) \<le> y" by (rule Min_le) simp_all
  moreover have "y \<le> Max (set (y # rest))" by (rule Max_ge) simp_all
  ultimately have "Min (set (y # rest)) \<le> Max (set (y # rest))" by (rule order_trans)
  then have "[fold min rest y .. fold max rest y] \<noteq> []"
    by (simp only: fold_min_Min fold_max_Max) simp
  with add_year_arts_Inr [OF ya] show ?thesis by blast
qed

lemma hash_keys_ball:
  "(\<forall>a \<in> set (hash_keys e obk bib). P (year a)) \<longleftrightarrow> (\<forall>a \<in> set bib. P (year a))"
  by (simp add: hash_keys_def)

text \<open>
  C5. Every edge of a graph that the builder returns holds the keys, as they are after
  the optional hashing, of a source article and of a candidate article of the
  bibliography that is another article, with another title object: the source itself
  is left out of its own candidates. When the keys of the bibliography after the
  optional hashing are distinct, no edge has the same key at both ends. The builder
  does not make the keys distinct: the hashed keys of \<open>watson\<close> and \<open>hughes\<close> are the
  same, and the edge between them has that key at both ends.
\<close>

theorem no_self_edges:
  assumes "build_graph_model e bib tei original_bibtex_keys wiq w = Inr (g, w')"
  shows "(\<forall>ed \<in> set (edges g).
            \<exists>article \<in> set (hash_keys e original_bibtex_keys bib).
            \<exists>art \<in> set (hash_keys e original_bibtex_keys bib).
              art \<noteq> article \<and> title_id art \<noteq> title_id article \<and>
              ed = \<lparr>from_key = bibtex_key article, to_key = bibtex_key art\<rparr>) \<and>
         (distinct (map bibtex_key (hash_keys e original_bibtex_keys bib)) \<longrightarrow>
            (\<forall>ed \<in> set (edges g). from_key ed \<noteq> to_key ed))"
proof -
  define arts where "arts = hash_keys e original_bibtex_keys bib"
  from build_edges [OF assms] obtain w0 where
    "add_edges e tei wiq arts arts ([], w0) = Inr (edges g, w')"
    unfolding arts_def by blast
  from add_edges_adds [OF this] have sub:
    "set (edges g) \<subseteq> (\<Union>article \<in> set arts. edge_between article ` others arts article)"
    by simp
  have pick: "\<exists>article \<in> set arts. \<exists>art \<in> set arts.
      art \<noteq> article \<and> title_id art \<noteq> title_id article \<and> ed = edge_between article art"
    if "ed \<in> set (edges g)" for ed
  proof -
    from that sub obtain article where
      a: "article \<in> set arts" "ed \<in> edge_between article ` others arts article"
      by blast
    from a(2) obtain art where
      b: "art \<in> set arts" "title_id art \<noteq> title_id article" "ed = edge_between article art"
      by blast
    from b(2) have "art \<noteq> article" by blast
    with a(1) b show ?thesis by blast
  qed
  have apart: "from_key ed \<noteq> to_key ed"
    if d: "distinct (map bibtex_key arts)" and "ed \<in> set (edges g)" for ed
  proof -
    from pick [OF that(2)] obtain article art where
      m: "article \<in> set arts" "art \<in> set arts" "art \<noteq> article"
         "ed = edge_between article art" by blast
    from d have "inj_on bibtex_key (set arts)" by (simp add: distinct_map)
    with m(1-3) have "bibtex_key article \<noteq> bibtex_key art" by (auto dest: inj_onD)
    with m(4) show ?thesis by simp
  qed
  from pick apart show ?thesis unfolding arts_def by blast
qed

theorem no_self_edges_counterexample:
  "bibtex_key watson \<noteq> bibtex_key hughes \<and>
   build_graph_model sample_env [watson, hughes] ''tei'' False False fresh
     = Inr (collision_graph, sample_session) \<and>
   edges collision_graph = [\<lparr>from_key = ''28afd5'', to_key = ''28afd5''\<rparr>] \<and>
   from_key \<lparr>from_key = ''28afd5'', to_key = ''28afd5''\<rparr>
     = to_key \<lparr>from_key = ''28afd5'', to_key = ''28afd5''\<rparr>"
proof -
  have k: "bibtex_key watson \<noteq> bibtex_key hughes"
    by (simp add: watson_def hughes_def)
  have h: "hash_keys sample_env False [watson, hughes]
             = [watson\<lparr>bibtex_key := ''28afd5''\<rparr>, hughes\<lparr>bibtex_key := ''28afd5''\<rparr>]"
    by code_simp
  have cy: "collect_years [watson\<lparr>bibtex_key := ''28afd5''\<rparr>, hughes\<lparr>bibtex_key := ''28afd5''\<rparr>]
              = Inr [2002, 2003]"
    by code_simp
  have ya: "this_year_arts 2002
              [watson\<lparr>bibtex_key := ''28afd5''\<rparr>, hughes\<lparr>bibtex_key := ''28afd5''\<rparr>]
              = Inr [''28afd5'']"
    "this_year_arts 2003
              [watson\<lparr>bibtex_key := ''28afd5''\<rparr>, hughes\<lparr>bibtex_key := ''28afd5''\<rparr>]
              = Inr [''28afd5'']"
    by code_simp+
  have aa: "add_articles [watson\<lparr>bibtex_key := ''28afd5''\<rparr>, hughes\<lparr>bibtex_key := ''28afd5''\<rparr>]
              = Inr (articles collision_graph)"
    by code_simp
  have ae: "add_edges sample_env ''tei'' False
              [watson\<lparr>bibtex_key := ''28afd5''\<rparr>, hughes\<lparr>bibtex_key := ''28afd5''\<rparr>]
              [watson\<lparr>bibtex_key := ''28afd5''\<rparr>, hughes\<lparr>bibtex_key := ''28afd5''\<rparr>]
              ([], \<lparr>user_answers = [], stdin = [], out = [divider]\<rparr>)
              = Inr ([\<lparr>from_key = ''28afd5'', to_key = ''28afd5''\<rparr>], sample_session)"
    by code_simp
  have b: "build_graph_model sample_env [watson, hughes] ''tei'' False False fresh
     = Inr (collision_graph, sample_session)"
    by (simp add: build_graph_model_def h cy ya aa ae fresh_def collision_graph_def
          divider_def [symmetric] upto_rec1 Let_def
        del: collect_years.simps this_year_arts.simps add_articles.simps add_edges.simps)
  have e: "edges collision_graph = [\<lparr>from_key = ''28afd5'', to_key = ''28afd5''\<rparr>]"
    by (simp add: collision_graph_def)
  from k b e show ?thesis by simp
qed

theorem no_self_edges_witness:
  "build_graph_model sample_env [paper_x, paper_y] ''tei'' True False fresh
     = Inr (sample_graph, sample_session) \<and>
   distinct (map bibtex_key [paper_x, paper_y]) \<and>
   edges sample_graph = [\<lparr>from_key = ''Y2013'', to_key = ''X2010''\<rparr>] \<and>
   from_key \<lparr>from_key = ''Y2013'', to_key = ''X2010''\<rparr>
     \<noteq> to_key \<lparr>from_key = ''Y2013'', to_key = ''X2010''\<rparr>"
proof -
  have d: "distinct (map bibtex_key [paper_x, paper_y])"
    by (simp add: paper_x_def paper_y_def)
  have e: "edges sample_graph = [\<lparr>from_key = ''Y2013'', to_key = ''X2010''\<rparr>]"
    by (simp add: sample_graph_def)
  from no_self_edges [OF sample_build] d e show ?thesis
    by (simp add: sample_build sample_keys)
qed

subsection \<open>The scan of the candidates for one reference\<close>






text \<open>
  C7. In the graph of a completed build the list of years holds the year of every
  article, and the year index has an entry for exactly the years from the smallest to
  the largest of them: the keys of the articles of that year, the empty list for a year
  without articles. The sample has articles in 2010 and 2013 only.
\<close>

theorem year_index_complete:
  assumes "build_graph_model e bib tei original_bibtex_keys wiq w = Inr (g, w')"
  shows "years g \<noteq> [] \<and>
         map (\<lambda>a. int_of_year (year a)) bib = map Inr (years g) \<and>
         dom (year_arts g) = {Min (set (years g)) .. Max (set (years g))} \<and>
         (\<forall>y \<in> {Min (set (years g)) .. Max (set (years g))}.
            year_arts g y =
              Some (map bibtex_key (filter (\<lambda>a. int_of_year (year a) = Inr y)
                      (hash_keys e original_bibtex_keys bib))) \<and>
            (y \<notin> set (years g) \<longrightarrow> year_arts g y = Some []))"
proof -
  define arts where "arts = hash_keys e original_bibtex_keys bib"
  from build_years [OF assms] obtain y rest where
    ys: "years g = y # rest"
    and cy: "collect_years arts = Inr (y # rest)"
    and ya: "add_year_arts [fold min rest y .. fold max rest y] arts Map.empty
               = Inr (year_arts g)"
    unfolding arts_def by blast
  have conv: "\<forall>a \<in> set arts. \<exists>i. int_of_year (year a) = Inr i"
    using build_convertible [OF assms] unfolding arts_def .
  then have nonnull: "filter (\<lambda>a. year a \<noteq> YearNull) arts = arts"
    by (auto simp: filter_id_conv dest: int_of_year_Null)
  from collect_years_Inr [OF cy] nonnull have
    "map (\<lambda>a. int_of_year (year a)) arts = map Inr (years g)"
    using ys by simp
  moreover have "map (\<lambda>a. int_of_year (year a)) arts = map (\<lambda>a. int_of_year (year a)) bib"
    unfolding arts_def by (simp add: hash_keys_def)
  ultimately have all_years: "map (\<lambda>a. int_of_year (year a)) bib = map Inr (years g)"
    and arts_years: "map (\<lambda>a. int_of_year (year a)) arts = map Inr (years g)"
    by simp_all
  have range: "set [fold min rest y .. fold max rest y]
                 = {Min (set (years g)) .. Max (set (years g))}"
    by (simp only: fold_min_Min fold_max_Max ys) simp
  from add_year_arts_Inr [OF ya] have m:
    "year_arts g = (\<lambda>z. if z \<in> set [fold min rest y .. fold max rest y]
                          then Some (keys_of_year arts z) else None)"
    by simp
  have dom_eq: "dom (year_arts g) = {Min (set (years g)) .. Max (set (years g))}"
    unfolding range [symmetric] by (subst m) (auto simp: dom_def)
  have entry: "year_arts g z = Some (keys_of_year arts z)"
    if "z \<in> {Min (set (years g)) .. Max (set (years g))}" for z
    using that unfolding range [symmetric] by (subst m) simp
  have empty: "keys_of_year arts z = []" if "z \<notin> set (years g)" for z
  proof -
    have "int_of_year (year a) \<noteq> Inr z" if "a \<in> set arts" for a
    proof
      assume "int_of_year (year a) = Inr z"
      with \<open>a \<in> set arts\<close> have
        "(Inr z :: error + int) \<in> set (map (\<lambda>a. int_of_year (year a)) arts)"
        by force
      then have "(Inr z :: error + int) \<in> set (map Inr (years g))"
        by (simp only: arts_years)
      then have "z \<in> set (years g)" by auto
      with \<open>z \<notin> set (years g)\<close> show False by blast
    qed
    then show ?thesis by (simp add: filter_empty_conv)
  qed
  from ys all_years dom_eq entry empty show ?thesis
    unfolding arts_def by simp
qed


theorem year_index_complete_witness:
  "build_graph_model sample_env [paper_x, paper_y] ''tei'' True False fresh
     = Inr (sample_graph, sample_session) \<and>
   years sample_graph = [2010, 2013] \<and>
   dom (year_arts sample_graph) = {2010 .. 2013} \<and>
   year_arts sample_graph 2010 = Some [''X2010''] \<and>
   year_arts sample_graph 2011 = Some [] \<and>
   year_arts sample_graph 2012 = Some [] \<and>
   year_arts sample_graph 2013 = Some [''Y2013'']"
proof -
  have y: "years sample_graph = [2010, 2013]"
    by (simp add: sample_graph_def)
  have "Min (set [2010, 2013 :: int]) = 2010" and "Max (set [2010, 2013 :: int]) = 2013"
    by simp_all
  with year_index_complete [OF sample_build] y
  have "dom (year_arts sample_graph) = {2010 .. 2013}"
    by simp
  with y sample_build show ?thesis
    by (simp add: sample_graph_def)
qed

text \<open>
  C10. A build completes only if the bibliography is not empty and the year of every
  article converts to a whole number. When no article has a year, \<^verbatim>\<open>min(years)\<close>
  raises \<^verbatim>\<open>ValueError\<close>; when some article has no year, the build ends with an error.
\<close>

theorem years_precondition:
  "(build_graph_model e bib tei original_bibtex_keys wiq w = Inr (g, w') \<longrightarrow>
      bib \<noteq> [] \<and> (\<forall>a \<in> set bib. \<exists>y. int_of_year (year a) = Inr y)) \<and>
   ((\<forall>a \<in> set bib. year a = YearNull) \<longrightarrow>
      build_graph_model e bib tei original_bibtex_keys wiq w = Inl ValueError) \<and>
   ((\<exists>a \<in> set bib. year a = YearNull) \<longrightarrow>
      (\<exists>err. build_graph_model e bib tei original_bibtex_keys wiq w = Inl err))"
proof -
  have ok: "bib \<noteq> [] \<and> (\<forall>a \<in> set bib. \<exists>y. int_of_year (year a) = Inr y)"
    if b: "build_graph_model e bib tei original_bibtex_keys wiq w = Inr (g, w')"
  proof -
    from build_convertible [OF b] have c: "\<forall>a \<in> set bib. \<exists>y. int_of_year (year a) = Inr y"
      by (simp add: hash_keys_ball [where P = "\<lambda>y. \<exists>i. int_of_year y = Inr i"])
    from build_years [OF b] obtain y rest where
      "collect_years (hash_keys e original_bibtex_keys bib) = Inr (y # rest)" by blast
    then have "hash_keys e original_bibtex_keys bib \<noteq> []" by auto
    then have "bib \<noteq> []" by (simp add: hash_keys_Nil)
    with c show ?thesis by simp
  qed
  have none: "build_graph_model e bib tei original_bibtex_keys wiq w = Inl ValueError"
    if n: "\<forall>a \<in> set bib. year a = YearNull"
  proof -
    from n have "\<forall>a \<in> set (hash_keys e original_bibtex_keys bib). year a = YearNull"
      by (simp add: hash_keys_ball [where P = "\<lambda>y. y = YearNull"])
    from collect_years_all_null [OF this] show ?thesis
      by (simp add: build_graph_model_def Let_def)
  qed
  have some: "\<exists>err. build_graph_model e bib tei original_bibtex_keys wiq w = Inl err"
    if n: "\<exists>a \<in> set bib. year a = YearNull"
  proof (cases "build_graph_model e bib tei original_bibtex_keys wiq w")
    case (Inl err)
    then show ?thesis by simp
  next
    case (Inr r)
    obtain g0 w0 where "r = (g0, w0)" by (cases r)
    with Inr have b: "build_graph_model e bib tei original_bibtex_keys wiq w = Inr (g0, w0)"
      by simp
    from build_convertible [OF b] have "\<forall>a \<in> set bib. \<exists>y. int_of_year (year a) = Inr y"
      by (simp add: hash_keys_ball [where P = "\<lambda>y. \<exists>i. int_of_year y = Inr i"])
    with n show ?thesis by (auto simp: int_of_year_def)
  qed
  from ok none some show ?thesis by blast
qed

theorem years_precondition_witness:
  "build_graph_model sample_env [paper_x, paper_y] ''tei'' True False fresh
     = Inr (sample_graph, sample_session) \<and>
   int_of_year (year paper_x) = Inr 2010 \<and> int_of_year (year paper_y) = Inr 2013 \<and>
   year paper_u = YearNull \<and>
   build_graph_model sample_env [paper_u] ''tei'' True False fresh = Inl ValueError \<and>
   build_graph_model sample_env [paper_x, paper_u, paper_y] ''tei'' True False fresh
     = Inl TypeError"
proof -
  have x: "int_of_year (year paper_x) = Inr 2010" by code_simp
  have y: "int_of_year (year paper_y) = Inr 2013" by code_simp
  have u: "year paper_u = YearNull" by (simp add: paper_u_def)
  have cy: "collect_years [paper_x, paper_u, paper_y] = Inr [2010, 2013]" by code_simp
  have ty: "this_year_arts 2010 [paper_x, paper_u, paper_y] = Inl TypeError" by code_simp
  have t: "build_graph_model sample_env [paper_x, paper_u, paper_y] ''tei'' True False fresh
             = Inl TypeError"
    by (simp add: build_graph_model_def hash_keys_def cy ty upto_rec1 Let_def
          del: collect_years.simps this_year_arts.simps add_articles.simps add_edges.simps)
  from years_precondition [of sample_env "[paper_u]" "''tei''" True False fresh]
  have "build_graph_model sample_env [paper_u] ''tei'' True False fresh = Inl ValueError"
    using u by simp
  with x y u t sample_build show ?thesis by simp
qed

text \<open>
  C9. An article that the edge loop skips adds no edge, and the loop goes on
  with the other articles, the edges found so far untouched. An article without a file
  field is skipped without any message. An article whose TEI file is not there is
  skipped with one failure message when its title is a text, and an article whose TEI
  file holds one of the two texts that mark an empty parse is skipped with one failure
  message.
\<close>

theorem skipped_documents:
  "(file_field article = None \<longrightarrow>
      add_edges e tei wiq arts (article # rest) (es, w)
        = add_edges e tei wiq arts rest (es, w)) \<and>
   (file_field article = Some f \<and> read_file e (tei_path tei f) = None \<and>
    title article = Some t \<longrightarrow>
      add_edges e tei wiq arts (article # rest) (es, w)
        = add_edges e tei wiq arts rest
            (es, w\<lparr>out := out w @ [Fail1 (''tei-file not found for '' @ t)]\<rparr>)) \<and>
   (file_field article = Some f \<and> read_file e (tei_path tei f) = Some c \<and>
    c \<in> set empty_tei \<longrightarrow>
      add_edges e tei wiq arts (article # rest) (es, w)
        = add_edges e tei wiq arts rest
            (es, w\<lparr>out := out w @ [Fail2 ''tei-file is empty for'' (title article)]\<rparr>))"
  by (simp add: process_article_def Let_def)

theorem skipped_documents_counterexample:
  "file_field paper_x = None \<and>
   process_article sample_env ''tei'' False [paper_x, paper_y] paper_x ([], fresh)
     = Inr ([], fresh) \<and>
   warnings (out fresh) = [] \<and>
   build_graph_model sample_env [paper_x, paper_y] ''tei'' True False fresh
     = Inr (sample_graph, sample_session) \<and>
   warnings (out sample_session) = [] \<and>
   file_field paper_u = Some ''pdfs/u.pdf'' \<and>
   read_file sample_env (tei_path ''tei'' ''pdfs/u.pdf'') = None \<and>
   process_article sample_env ''tei'' False [paper_u, paper_y] paper_u ([], fresh)
     = Inl TypeError"
proof -
  have 1: "file_field paper_x = None" by (simp add: paper_x_def)
  have 2: "process_article sample_env ''tei'' False [paper_x, paper_y] paper_x ([], fresh)
     = Inr ([], fresh)" by code_simp
  have 3: "warnings (out fresh) = []" by (simp add: warnings_def fresh_def)
  have 4: "warnings (out sample_session) = []"
    by (simp add: warnings_def sample_session_def divider_def)
  have 5: "file_field paper_u = Some ''pdfs/u.pdf''" by (simp add: paper_u_def)
  have 6: "read_file sample_env (tei_path ''tei'' ''pdfs/u.pdf'') = None" by code_simp
  have 7: "process_article sample_env ''tei'' False [paper_u, paper_y] paper_u ([], fresh)
     = Inl TypeError" by code_simp
  from 1 2 3 sample_build 4 5 6 7 show ?thesis by simp
qed

theorem skipped_documents_witness:
  "file_field paper_x = None \<and>
   file_field paper_z = Some ''pdfs/z.pdf'' \<and>
   read_file sample_env (tei_path ''tei'' ''pdfs/z.pdf'') = None \<and>
   title paper_z = Some ''Baking'' \<and>
   file_field paper_v = Some ''pdfs/v.pdf'' \<and>
   read_file sample_env (tei_path ''tei'' ''pdfs/v.pdf'')
     = Some ''[NO_BLOCKS] PDF parsing resulted in empty content'' \<and>
   add_edges sample_env ''tei'' False [paper_x, paper_z, paper_v, paper_y]
       [paper_x, paper_z, paper_v, paper_y] ([], fresh)
     = Inr ([\<lparr>from_key = ''Y2013'', to_key = ''X2010''\<rparr>],
            \<lparr>user_answers = [], stdin = [],
             out = [Fail1 ''tei-file not found for Baking'',
                    Fail2 ''tei-file is empty for'' (Some ''Frying''),
                    Print [], Text ''Processing tei/y.tei.xml'']\<rparr>)"
proof -
  have x: "file_field paper_x = None" by (simp add: paper_x_def)
  have z: "file_field paper_z = Some ''pdfs/z.pdf'' \<and>
           read_file sample_env (tei_path ''tei'' ''pdfs/z.pdf'') = None \<and>
           title paper_z = Some ''Baking''"
    by code_simp
  have v: "file_field paper_v = Some ''pdfs/v.pdf'' \<and>
           read_file sample_env (tei_path ''tei'' ''pdfs/v.pdf'')
             = Some ''[NO_BLOCKS] PDF parsing resulted in empty content'' \<and>
           ''[NO_BLOCKS] PDF parsing resulted in empty content'' \<in> set empty_tei"
    by code_simp
  have tv: "title paper_v = Some ''Frying''" by (simp add: paper_v_def)
  have y: "add_edges sample_env ''tei'' False [paper_x, paper_z, paper_v, paper_y] [paper_y]
       ([], \<lparr>user_answers = [], stdin = [],
             out = [Fail1 ''tei-file not found for Baking'',
                    Fail2 ''tei-file is empty for'' (Some ''Frying'')]\<rparr>)
     = Inr ([\<lparr>from_key = ''Y2013'', to_key = ''X2010''\<rparr>],
            \<lparr>user_answers = [], stdin = [],
             out = [Fail1 ''tei-file not found for Baking'',
                    Fail2 ''tei-file is empty for'' (Some ''Frying''),
                    Print [], Text ''Processing tei/y.tei.xml'']\<rparr>)"
    by code_simp
  note s1 = skipped_documents [where article = paper_x, THEN conjunct1, rule_format, OF x]
  note s2 = skipped_documents [where article = paper_z, THEN conjunct2, THEN conjunct1,
      rule_format, OF z]
  note s3 = skipped_documents [where article = paper_v, THEN conjunct2, THEN conjunct2,
      rule_format, OF v]
  have "add_edges sample_env ''tei'' False [paper_x, paper_z, paper_v, paper_y]
       [paper_x, paper_z, paper_v, paper_y] ([], fresh)
     = Inr ([\<lparr>from_key = ''Y2013'', to_key = ''X2010''\<rparr>],
            \<lparr>user_answers = [], stdin = [],
             out = [Fail1 ''tei-file not found for Baking'',
                    Fail2 ''tei-file is empty for'' (Some ''Frying''),
                    Print [], Text ''Processing tei/y.tei.xml'']\<rparr>)"
    by (simp only: s1 s2 s3) (simp add: fresh_def tv y del: add_edges.simps)
  with x z v show ?thesis by simp
qed

section \<open>Properties of the Text Normalizer\<close>

subsection \<open>The matcher on runs of one class\<close>

lemma plus_sym_stop:
  "s = [] \<or> \<not> P (hd s) \<Longrightarrow> matches (Plus (Sym P)) (n, s) = []"
  by (cases s) auto

lemma upt_rev_Suc:
  "rev [Suc 0..<Suc (Suc m)] = map Suc (rev [Suc 0..<Suc m]) @ [Suc 0]"
proof -
  have "[Suc 0..<Suc (Suc m)] = Suc 0 # [Suc (Suc 0)..<Suc (Suc m)]"
    by (rule upt_conv_Cons) simp
  also have "[Suc (Suc 0)..<Suc (Suc m)] = map Suc [Suc 0..<Suc m]"
    by (rule map_Suc_upt [symmetric])
  finally show ?thesis by (simp only: rev.simps rev_map)
qed

lemma plus_sym_run:
  "list_all P a \<Longrightarrow> rest = [] \<or> \<not> P (hd rest) \<Longrightarrow>
   matches (Plus (Sym P)) (n, a @ rest)
     = map (\<lambda>k. (n + k, drop k a @ rest)) (rev [1..<Suc (length a)])"
proof (induction a arbitrary: n)
  case Nil
  from plus_sym_stop [of rest P n] Nil.prems(2) show ?case by simp
next
  case (Cons x a)
  from Cons.prems have px: "P x" and pa: "list_all P a" by simp_all
  have "matches (Plus (Sym P)) (n, (x # a) @ rest)
          = matches (Plus (Sym P)) (Suc n, a @ rest) @ [(Suc n, a @ rest)]"
    using px by simp
  also have "\<dots> = map (\<lambda>k. (Suc n + k, drop k a @ rest)) (rev [1..<Suc (length a)])
                    @ [(Suc n, a @ rest)]"
    using Cons.IH [OF pa Cons.prems(2)] by simp
  also have "\<dots> = map (\<lambda>k. (n + k, drop k (x # a) @ rest)) (rev [1..<Suc (length (x # a))])"
    by (simp add: upt_rev_Suc o_def del: upt_Suc)
  finally show ?case .
qed

lemma plus_sym_first:
  assumes "list_all P a" and "a \<noteq> []" and "rest = [] \<or> \<not> P (hd rest)"
  shows "\<exists>tl. matches (Plus (Sym P)) (n, a @ rest) = (n + length a, rest) # tl"
proof -
  from assms(2) have "rev [1..<Suc (length a)] = length a # rev [1..<length a]"
    by (cases a) simp_all
  with plus_sym_run [OF assms(1) assms(3), of n] show ?thesis by simp
qed

lemma blanks_one:
  "s = [] \<or> hd s \<noteq> CHR '' '' \<Longrightarrow> matches blanks (n, CHR '' '' # s) = [(Suc n, s)]"
  unfolding blanks_def
  using plus_sym_run [of "\<lambda>c. c = CHR '' ''" "[CHR '' '']" s n] by simp

lemma blanks_none:
  "s = [] \<or> hd s \<noteq> CHR '' '' \<Longrightarrow> matches blanks (n, s) = []"
  unfolding blanks_def by (rule plus_sym_stop)

lemma name_char_plain:
  "is_name_char c \<Longrightarrow> c \<noteq> CHR '' '' \<and> c \<noteq> CHR '',''"
  by (auto simp: is_name_char_def is_letter_def code_def)

lemma author_sep_first:
  assumes "sep = '' and '' \<or> sep = '' AND ''" and "r \<noteq> []" and "hd r \<noteq> CHR '' ''"
  shows "\<exists>tl. matches author_sep (m, sep @ r) = (m + 5, r) # tl"
  using assms by (auto simp: author_sep_def blanks_one)

lemma author_sep_end: "matches author_sep (m, []) = [(m, [])]"
  by (simp add: author_sep_def blanks_none)

lemma nocomma_step:
  assumes "a \<noteq> []" and "list_all is_name_char a"
    and "sep = '' and '' \<or> sep = '' AND ''" and "r \<noteq> []" and "is_name_char (hd r)"
  shows "match_group Eps (Plus (Sym is_name_char)) author_sep (n, a @ sep @ r)
           = Some (a, (n + length a + 5, r))"
proof -
  have "\<not> is_name_char (hd (sep @ r))"
    using assms(3) name_char_plain [of "CHR '' ''"] by auto
  then obtain tl1 where 1:
    "matches (Plus (Sym is_name_char)) (n, a @ sep @ r) = (n + length a, sep @ r) # tl1"
    using plus_sym_first [OF assms(2) assms(1), of "sep @ r" n] by blast
  from assms(5) have "hd r \<noteq> CHR '' ''" using name_char_plain by blast
  from author_sep_first [OF assms(3) assms(4) this, of "n + length a"] obtain tl2 where 2:
    "matches author_sep (n + length a, sep @ r) = (n + length a + 5, r) # tl2"
    by blast
  show ?thesis
    by (simp add: match_group_def 1 2 del: matches.simps(8))
qed

lemma nocomma_last:
  assumes "a \<noteq> []" and "list_all is_name_char a"
  shows "match_group Eps (Plus (Sym is_name_char)) author_sep (n, a)
           = Some (a, (n + length a, []))"
proof -
  obtain tl1 where 1:
    "matches (Plus (Sym is_name_char)) (n, a) = (n + length a, []) # tl1"
    using plus_sym_first [OF assms(2) assms(1), of "[]" n] by auto
  show ?thesis
    by (simp add: match_group_def 1 author_sep_end del: matches.simps(8))
qed

lemma nocomma_end:
  "match_group Eps (Plus (Sym is_name_char)) author_sep (n, []) = None"
  by (simp add: match_group_def)

lemma joined_head:
  assumes "\<forall>p \<in> set pairs. fst p \<noteq> [] \<and> list_all is_name_char (fst p)"
    and "z \<noteq> []" and "list_all is_name_char z"
  shows "concat (map (\<lambda>p. fst p @ snd p) pairs) @ z \<noteq> [] \<and>
         is_name_char (hd (concat (map (\<lambda>p. fst p @ snd p) pairs) @ z))"
proof (cases pairs)
  case Nil
  with assms(2,3) show ?thesis by (cases z) simp_all
next
  case (Cons p ps)
  with assms(1) have "fst p \<noteq> []" and "list_all is_name_char (fst p)" by simp_all
  then show ?thesis using Cons by (cases "fst p") simp_all
qed

lemma findall_nocomma:
  assumes "\<forall>p \<in> set pairs. fst p \<noteq> [] \<and> list_all is_name_char (fst p) \<and>
                            (snd p = '' and '' \<or> snd p = '' AND '')"
    and "z \<noteq> []" and "list_all is_name_char z"
  shows "findall_from Eps (Plus (Sym is_name_char)) author_sep
           (n, concat (map (\<lambda>p. fst p @ snd p) pairs) @ z) = map fst pairs @ [z]"
  using assms(1)
proof (induction pairs arbitrary: n)
  case Nil
  show ?case
    by (simp add: nocomma_last [OF assms(2,3)] nocomma_end assms(2))
next
  case (Cons p ps)
  let ?r = "concat (map (\<lambda>p. fst p @ snd p) ps) @ z"
  from Cons.prems have p: "fst p \<noteq> []" "list_all is_name_char (fst p)"
      "snd p = '' and '' \<or> snd p = '' AND ''"
    and ps: "\<forall>p \<in> set ps. fst p \<noteq> [] \<and> list_all is_name_char (fst p) \<and>
                            (snd p = '' and '' \<or> snd p = '' AND '')"
    by simp_all
  from ps have "\<forall>p \<in> set ps. fst p \<noteq> [] \<and> list_all is_name_char (fst p)" by blast
  from joined_head [OF this assms(2,3)] have r: "?r \<noteq> []" "is_name_char (hd ?r)"
    by blast+
  have step: "match_group Eps (Plus (Sym is_name_char)) author_sep (n, fst p @ snd p @ ?r)
           = Some (fst p, (n + length (fst p) + 5, ?r))"
    by (rule nocomma_step [OF p r])
  have "findall_from Eps (Plus (Sym is_name_char)) author_sep (n, fst p @ snd p @ ?r)
          = fst p # findall_from Eps (Plus (Sym is_name_char)) author_sep
                      (n + length (fst p) + 5, ?r)"
    by (subst findall_from.simps) (simp add: step p(1) del: findall_from.simps)
  with Cons.IH [OF ps] show ?case by simp
qed

lemma author_lead_none:
  assumes "0 < n" and "\<not> prefix ''and '' s" and "\<not> prefix ''AND '' s"
  shows "matches author_lead (n, s) = []"
proof -
  have stop: "matches blanks (m, drop (length w) s) = []"
    if "take (length w) s = w" and "\<not> prefix (w @ '' '') s" for w m
  proof (cases "drop (length w) s")
    case Nil
    then show ?thesis by (simp add: blanks_none)
  next
    case (Cons x xs)
    have "s = take (length w) s @ drop (length w) s" by simp
    with that(1) Cons have "s = w @ x # xs" by simp
    with that(2) have "x \<noteq> CHR '' ''" by (auto simp: prefix_def)
    with Cons show ?thesis by (simp add: blanks_none)
  qed
  from stop [of "''and''"] assms(2)
  have 1: "take (length ''and'') s = ''and'' \<Longrightarrow>
           matches blanks (m, drop (length ''and'') s) = []" for m
    by simp
  from stop [of "''AND''"] assms(3)
  have 2: "take (length ''AND'') s = ''AND'' \<Longrightarrow>
           matches blanks (m, drop (length ''AND'') s) = []" for m
    by simp
  from assms(1) 1 2 show ?thesis
    by (simp add: author_lead_def)
qed

lemma skip_one:
  assumes "0 < n" and "\<not> prefix ''and '' (c # s)" and "\<not> prefix ''AND '' (c # s)"
  shows "findall_from author_lead (Plus (Sym is_name_or_blank)) Eps (n, c # s)
           = findall_from author_lead (Plus (Sym is_name_or_blank)) Eps (Suc n, s)"
  by (subst findall_from.simps)
     (simp add: match_group_def author_lead_none [OF assms] del: findall_from.simps)

lemma prefix_word:
  assumes "\<forall>c \<in> set t. c \<noteq> CHR '' ''" and "\<forall>c \<in> set w. c \<noteq> CHR '' ''"
    and "prefix (w @ '' '') (t @ CHR '' '' # rest)"
  shows "t = w"
  using assms
proof (induction t arbitrary: w)
  case Nil
  then show ?case by (cases w) auto
next
  case (Cons c t)
  show ?case
  proof (cases w)
    case Nil
    with Cons.prems show ?thesis by auto
  next
    case w: (Cons x w')
    with Cons.prems have "x = c" and "prefix (w' @ '' '') (t @ CHR '' '' # rest)"
      by simp_all
    moreover from Cons.prems w have "\<forall>c \<in> set t. c \<noteq> CHR '' ''"
      and "\<forall>c \<in> set w'. c \<noteq> CHR '' ''" by simp_all
    ultimately show ?thesis using Cons.IH [of w'] w by simp
  qed
qed

lemma comma_stops: "\<not> is_name_or_blank (CHR '','')"
  by (simp add: is_name_or_blank_def is_name_char_def is_letter_def code_def)

lemma blanks_stop_after:
  assumes "take (length w) u = w" and "\<not> prefix (w @ '' '') u"
  shows "matches blanks (m, drop (length w) u) = []"
proof (cases "drop (length w) u")
  case Nil
  then show ?thesis by (simp add: blanks_none)
next
  case (Cons x xs)
  have "u = take (length w) u @ drop (length w) u" by simp
  with assms(1) Cons have "u = w @ x # xs" by simp
  with assms(2) have "x \<noteq> CHR '' ''" by (auto simp: prefix_def)
  with Cons show ?thesis by (simp add: blanks_none)
qed

lemma author_sep_fail_name:
  assumes "is_name_char c"
  shows "matches author_sep (m, c # s) = []"
proof -
  from assms have "c \<noteq> CHR '' ''" and "c \<noteq> CHR 0x0A"
    by (auto simp: is_name_char_def is_letter_def code_def)
  then show ?thesis by (simp add: author_sep_def blanks_none)
qed

lemma author_sep_fail_word:
  assumes "u = [] \<or> hd u \<noteq> CHR '' ''"
    and "\<not> prefix ''and '' u" and "\<not> prefix ''AND '' u"
  shows "matches author_sep (m, CHR '' '' # u) = []"
proof -
  from blanks_stop_after [of "''and''" u] assms(2)
  have 1: "take (length ''and'') u = ''and'' \<Longrightarrow>
           matches blanks (k, drop (length ''and'') u) = []" for k
    by simp
  from blanks_stop_after [of "''AND''" u] assms(3)
  have 2: "take (length ''AND'') u = ''AND'' \<Longrightarrow>
           matches blanks (k, drop (length ''AND'') u) = []" for k
    by simp
  from assms(1) 1 2 show ?thesis
    by (simp add: author_sep_def blanks_one)
qed

lemma concat_map_Nil: "concat (map (\<lambda>x. []) xs) = []"
  by (induction xs) simp_all

lemma nocomma_no_match:
  assumes "list_all is_name_char a"
    and "u = [] \<or> hd u \<noteq> CHR '' ''"
    and "\<not> prefix ''and '' u" and "\<not> prefix ''AND '' u"
  shows "match_group Eps (Plus (Sym is_name_char)) author_sep (n, a @ CHR '' '' # u) = None"
proof -
  have stop: "CHR '' '' # u = [] \<or> \<not> is_name_char (hd (CHR '' '' # u))"
    using name_char_plain [of "CHR '' ''"] by auto
  have fail: "matches author_sep (n + k, drop k a @ CHR '' '' # u) = []" for k
  proof (cases "drop k a")
    case Nil
    then show ?thesis using author_sep_fail_word [OF assms(2-4)] by simp
  next
    case (Cons c cs)
    then have "c \<in> set a" by (metis in_set_dropD list.set_intros(1))
    with assms(1) have "is_name_char c" by (simp add: list_all_iff)
    with Cons show ?thesis by (simp add: author_sep_fail_name)
  qed
  show ?thesis
    by (simp add: match_group_def plus_sym_run [OF assms(1) stop] o_def fail
          concat_map_Nil del: matches.simps(8) upt_Suc)
qed

lemma nocomma_skip_name:
  assumes "list_all is_name_char a"
    and "u = [] \<or> hd u \<noteq> CHR '' ''"
    and "\<not> prefix ''and '' u" and "\<not> prefix ''AND '' u"
  shows "findall_from Eps (Plus (Sym is_name_char)) author_sep (n, a @ CHR '' '' # u)
           = findall_from Eps (Plus (Sym is_name_char)) author_sep (Suc (n + length a), u)"
  using assms(1)
proof (induction a arbitrary: n)
  case Nil
  from nocomma_no_match [OF Nil assms(2-4), of n] show ?case
    by (subst findall_from.simps) (simp del: findall_from.simps)
next
  case (Cons c a)
  from Cons.prems have a: "list_all is_name_char a" by simp
  from nocomma_no_match [OF Cons.prems assms(2-4), of n]
  have "findall_from Eps (Plus (Sym is_name_char)) author_sep (n, (c # a) @ CHR '' '' # u)
          = findall_from Eps (Plus (Sym is_name_char)) author_sep (Suc n, a @ CHR '' '' # u)"
    by (subst findall_from.simps) (simp del: findall_from.simps)
  with Cons.IH [OF a, of "Suc n"] show ?case by simp
qed

lemma token_no_prefix:
  assumes "list_all is_name_char b" and "CHR '' '' \<in> set w"
  shows "\<not> prefix w b"
proof
  assume "prefix w b"
  then have "set w \<subseteq> set b" by (rule set_mono_prefix)
  with assms(2) have "CHR '' '' \<in> set b" by blast
  with assms(1) show False using name_char_plain by (auto simp: list_all_iff)
qed

lemma other_word_no_prefix:
  assumes "list_all is_name_char w" and "w \<noteq> x" and "\<forall>c \<in> set x. c \<noteq> CHR '' ''"
  shows "\<not> prefix (x @ '' '') (w @ CHR '' '' # r)"
proof
  assume p: "prefix (x @ '' '') (w @ CHR '' '' # r)"
  from assms(1) have "\<forall>c \<in> set w. c \<noteq> CHR '' ''"
    using name_char_plain by (auto simp: list_all_iff)
  from prefix_word [OF this assms(3) p] assms(2) show False by simp
qed

lemma findall_other_word:
  assumes "a \<noteq> []" and "list_all is_name_char a"
    and "w \<noteq> []" and "list_all is_name_char w" and "w \<noteq> ''and''" and "w \<noteq> ''AND''"
    and "b \<noteq> []" and "list_all is_name_char b"
  shows "findall_from Eps (Plus (Sym is_name_char)) author_sep
           (n, a @ '' '' @ w @ '' '' @ b) = [b]"
proof -
  let ?find = "findall_from Eps (Plus (Sym is_name_char)) author_sep"
  have hw: "w @ CHR '' '' # b = [] \<or> hd (w @ CHR '' '' # b) \<noteq> CHR '' ''"
    using assms(3,4) name_char_plain [of "hd w"] by (cases w) auto
  have hb: "b = [] \<or> hd b \<noteq> CHR '' ''"
    using assms(7,8) name_char_plain [of "hd b"] by (cases b) auto
  have w1: "\<not> prefix ''and '' (w @ CHR '' '' # b)"
    using other_word_no_prefix [OF assms(4,5), of b] by simp
  have w2: "\<not> prefix ''AND '' (w @ CHR '' '' # b)"
    using other_word_no_prefix [OF assms(4,6), of b] by simp
  have b1: "\<not> prefix ''and '' b" and b2: "\<not> prefix ''AND '' b"
    by (rule token_no_prefix [OF assms(8)], simp)+
  have "?find (n, a @ CHR '' '' # w @ CHR '' '' # b)
          = ?find (Suc (n + length a), w @ CHR '' '' # b)"
    by (rule nocomma_skip_name [OF assms(2) hw w1 w2])
  also have "\<dots> = ?find (Suc (Suc (n + length a) + length w), b)"
    by (rule nocomma_skip_name [OF assms(4) hb b1 b2])
  also have "\<dots> = [b]"
    using findall_nocomma [of "[]" b] assms(7,8) by simp
  finally show ?thesis by simp
qed

lemma joined_no_comma:
  assumes "\<forall>p \<in> set pairs. list_all is_name_char (fst p) \<and>
                            (snd p = '' and '' \<or> snd p = '' AND '')"
    and "list_all is_name_char z"
  shows "CHR '','' \<notin> set (concat (map (\<lambda>p. fst p @ snd p) pairs) @ z)"
proof -
  have name: "CHR '','' \<notin> set a" if "list_all is_name_char a" for a
    using that name_char_plain by (auto simp: list_all_iff)
  have "CHR '','' \<notin> set (fst p @ snd p)" if "p \<in> set pairs" for p
    using assms(1) that name [of "fst p"] by auto
  with name [OF assms(2)] show ?thesis by auto
qed

lemma skip_text:
  assumes "0 < n"
    and "\<forall>s. s \<noteq> [] \<and> suffix s t \<longrightarrow>
               \<not> prefix ''and '' (s @ r) \<and> \<not> prefix ''AND '' (s @ r)"
  shows "findall_from author_lead (Plus (Sym is_name_or_blank)) Eps (n, t @ r)
           = findall_from author_lead (Plus (Sym is_name_or_blank)) Eps (n + length t, r)"
  using assms
proof (induction t arbitrary: n)
  case Nil
  then show ?case by simp
next
  case (Cons c t)
  from Cons.prems(2) have here: "\<not> prefix ''and '' ((c # t) @ r)"
    "\<not> prefix ''AND '' ((c # t) @ r)"
    by (auto simp del: Cons_prefix_Cons)
  have later: "\<forall>s. s \<noteq> [] \<and> suffix s t \<longrightarrow>
               \<not> prefix ''and '' (s @ r) \<and> \<not> prefix ''AND '' (s @ r)"
    using Cons.prems(2) by (auto simp: suffix_Cons simp del: Cons_prefix_Cons)
  have "findall_from author_lead (Plus (Sym is_name_or_blank)) Eps (n, (c # t) @ r)
        = findall_from author_lead (Plus (Sym is_name_or_blank)) Eps (Suc n, t @ r)"
    using skip_one [OF Cons.prems(1), of c "t @ r"] here by simp
  also have "\<dots> = findall_from author_lead (Plus (Sym is_name_or_blank)) Eps
                      (Suc n + length t, r)"
    by (rule Cons.IH [OF _ later]) simp
  finally show ?case by simp
qed

lemma word_inside:
  assumes "length w = 3" and "CHR '' '' \<notin> set w"
    and "s \<noteq> []" and "suffix s f"
    and "prefix (w @ '' '') (s @ CHR '' '' # behind)"
  shows "sublist (w @ '' '') (f @ '' '')"
proof -
  from assms(5) obtain zs where "s @ CHR '' '' # behind = (w @ '' '') @ zs"
    by (auto simp: prefix_def)
  then have "take 4 (s @ CHR '' '' # behind) = take 4 ((w @ '' '') @ zs)" by simp
  also have "\<dots> = w @ '' ''" using assms(1) by simp
  finally have tk: "take 4 (s @ CHR '' '' # behind) = w @ '' ''" .
  have long: "3 \<le> length s"
  proof (rule ccontr)
    assume "\<not> 3 \<le> length s"
    then have l: "length s < 3" by simp
    from tk have "(take 4 (s @ CHR '' '' # behind)) ! length s = (w @ '' '') ! length s"
      by simp
    with l assms(1) have "CHR '' '' = w ! length s"
      by (simp add: nth_append)
    with l assms(1,2) show False by (metis nth_mem)
  qed
  then have "take 4 (s @ CHR '' '' # behind) = take 4 (s @ '' '')"
    by (cases "length s = 3") simp_all
  with tk have "prefix (w @ '' '') (s @ '' '')"
    by (metis take_is_prefix)
  then obtain rest where b: "s @ '' '' = (w @ '' '') @ rest"
    by (auto simp: prefix_def)
  from assms(4) obtain front where f: "f = front @ s"
    by (auto simp: suffix_def)
  from f b have "f @ '' '' = front @ (w @ '' '') @ rest" by simp
  then show ?thesis unfolding sublist_def by blast
qed

lemma no_lead_in_first_name:
  assumes "\<not> sublist ''and '' (f @ '' '')" and "\<not> sublist ''AND '' (f @ '' '')"
  shows "\<forall>s. s \<noteq> [] \<and> suffix s f \<longrightarrow>
               \<not> prefix ''and '' (s @ CHR '' '' # behind) \<and>
               \<not> prefix ''AND '' (s @ CHR '' '' # behind)"
proof (intro allI impI conjI)
  fix s assume s: "s \<noteq> [] \<and> suffix s f"
  show "\<not> prefix ''and '' (s @ CHR '' '' # behind)"
  proof
    assume "prefix ''and '' (s @ CHR '' '' # behind)"
    then have "prefix (''and'' @ '' '') (s @ CHR '' '' # behind)" by simp
    from word_inside [OF _ _ _ _ this, of f] s assms(1) show False by simp
  qed
  show "\<not> prefix ''AND '' (s @ CHR '' '' # behind)"
  proof
    assume "prefix ''AND '' (s @ CHR '' '' # behind)"
    then have "prefix (''AND'' @ '' '') (s @ CHR '' '' # behind)" by simp
    from word_inside [OF _ _ _ _ this, of f] s assms(2) show False by simp
  qed
qed

lemma no_lead_in_last_name:
  assumes "\<not> sublist ''and '' g" and "\<not> sublist ''AND '' g"
  shows "\<forall>s. s \<noteq> [] \<and> suffix s g \<longrightarrow>
               \<not> prefix ''and '' (s @ []) \<and> \<not> prefix ''AND '' (s @ [])"
proof (intro allI impI)
  fix s assume s: "s \<noteq> [] \<and> suffix s g"
  then obtain front where g: "g = front @ s" by (auto simp: suffix_def)
  have "\<not> prefix w (s @ [])" if "\<not> sublist w g" for w
  proof
    assume "prefix w (s @ [])"
    then obtain rest where "s = w @ rest" by (auto simp: prefix_def)
    with g have "g = front @ w @ rest" by simp
    then have "sublist w g" unfolding sublist_def by blast
    with that show False by simp
  qed
  with assms show "\<not> prefix ''and '' (s @ []) \<and> \<not> prefix ''AND '' (s @ [])" by simp
qed

lemma surname_at_start:
  assumes "a \<noteq> []" and "list_all is_name_or_blank a"
    and "rest \<noteq> []" and "hd rest = CHR '',''"
  shows "match_group author_lead (Plus (Sym is_name_or_blank)) Eps (0, a @ rest)
           = Some (a, (length a, rest))"
proof -
  obtain tl0 where 0: "matches author_lead (0, a @ rest) = (0, a @ rest) # tl0"
    by (simp add: author_lead_def)
  from assms(4) comma_stops have "rest = [] \<or> \<not> is_name_or_blank (hd rest)" by simp
  from plus_sym_first [OF assms(2) assms(1) this, of 0]
  obtain tl1 where 1:
    "matches (Plus (Sym is_name_or_blank)) (0, a @ rest) = (length a, rest) # tl1"
    by auto
  show ?thesis
    by (simp add: match_group_def 0 1 del: matches.simps(8))
qed

lemma surname_after_lead:
  assumes "0 < n" and "lead = ''and '' \<or> lead = ''AND ''"
    and "a \<noteq> []" and "hd a \<noteq> CHR '' ''" and "list_all is_name_or_blank a"
    and "rest \<noteq> []" and "hd rest = CHR '',''"
  shows "match_group author_lead (Plus (Sym is_name_or_blank)) Eps (n, lead @ a @ rest)
           = Some (a, (n + 4 + length a, rest))"
proof -
  from assms(3,4) have "hd (a @ rest) \<noteq> CHR '' ''" by (cases a) auto
  with assms(1,2) have 0: "matches author_lead (n, lead @ a @ rest) = [(n + 4, a @ rest)]"
    by (auto simp: author_lead_def blanks_one)
  from assms(7) comma_stops have "rest = [] \<or> \<not> is_name_or_blank (hd rest)" by simp
  from plus_sym_first [OF assms(5) assms(3) this, of "n + 4"]
  obtain tl1 where 1:
    "matches (Plus (Sym is_name_or_blank)) (n + 4, a @ rest) = (n + 4 + length a, rest) # tl1"
    by auto
  show ?thesis
    by (simp add: match_group_def 0 1 del: matches.simps(8))
qed

lemma entry_step:
  assumes "0 < n"
    and "\<not> sublist ''and '' (f @ '' '')" and "\<not> sublist ''AND '' (f @ '' '')"
    and "sep = '' and '' \<or> sep = '' AND ''"
    and "a \<noteq> []" and "hd a \<noteq> CHR '' ''" and "list_all is_name_or_blank a"
    and "rest \<noteq> []" and "hd rest = CHR '',''"
  shows "findall_from author_lead (Plus (Sym is_name_or_blank)) Eps
           (n, '', '' @ f @ sep @ a @ rest)
         = a # findall_from author_lead (Plus (Sym is_name_or_blank)) Eps
                 (n + 2 + length f + 5 + length a, rest)"
proof -
  let ?find = "findall_from author_lead (Plus (Sym is_name_or_blank)) Eps"
  from assms(4) obtain lead where sep: "sep = CHR '' '' # lead"
    and lead: "lead = ''and '' \<or> lead = ''AND ''" by auto
  have "?find (n, '', '' @ f @ sep @ a @ rest) = ?find (Suc n, '' '' @ f @ sep @ a @ rest)"
    using skip_one [OF assms(1), of "CHR '',''" "'' '' @ f @ sep @ a @ rest"] by simp
  also have "\<dots> = ?find (Suc (Suc n), f @ CHR '' '' # lead @ a @ rest)"
    using skip_one [of "Suc n" "CHR '' ''" "f @ sep @ a @ rest"] sep by simp
  also have "\<dots> = ?find (Suc (Suc n) + length f, CHR '' '' # lead @ a @ rest)"
    by (rule skip_text [OF _ no_lead_in_first_name [OF assms(2,3)]]) simp
  also have "\<dots> = ?find (Suc (Suc (Suc n) + length f), lead @ a @ rest)"
    using skip_one [of "Suc (Suc n) + length f" "CHR '' ''" "lead @ a @ rest"] by simp
  also have "\<dots> = a # ?find (Suc (Suc (Suc n) + length f) + 4 + length a, rest)"
    by (subst findall_from.simps)
       (simp add: surname_after_lead [OF _ lead assms(5-9)] assms(5) lead
          del: findall_from.simps)
  finally show ?thesis by (simp add: add.commute add.left_commute)
qed

lemma last_first_name:
  assumes "0 < n"
    and "\<not> sublist ''and '' g" and "\<not> sublist ''AND '' g"
  shows "findall_from author_lead (Plus (Sym is_name_or_blank)) Eps (n, '', '' @ g) = []"
proof -
  let ?find = "findall_from author_lead (Plus (Sym is_name_or_blank)) Eps"
  have "?find (n, '', '' @ g) = ?find (Suc n, '' '' @ g)"
    using skip_one [OF assms(1), of "CHR '',''" "'' '' @ g"] by simp
  also have "\<dots> = ?find (Suc (Suc n), g @ [])"
    using skip_one [of "Suc n" "CHR '' ''" g] by simp
  also have "\<dots> = ?find (Suc (Suc n) + length g, [])"
    by (rule skip_text [OF _ no_lead_in_last_name [OF assms(2,3)]]) simp
  also have "\<dots> = []"
  proof -
    have "matches author_lead (Suc (Suc n) + length g, []) = []"
      by (rule author_lead_none) simp_all
    then show ?thesis by (simp add: match_group_def)
  qed
  finally show ?thesis .
qed

lemma findall_entries:
  assumes "\<forall>e \<in> set entries.
             \<not> sublist ''and '' (fst e @ '' '') \<and> \<not> sublist ''AND '' (fst e @ '' '') \<and>
             (fst (snd e) = '' and '' \<or> fst (snd e) = '' AND '') \<and>
             snd (snd e) \<noteq> [] \<and> hd (snd (snd e)) \<noteq> CHR '' '' \<and>
             list_all is_name_or_blank (snd (snd e))"
    and "\<not> sublist ''and '' g" and "\<not> sublist ''AND '' g"
    and "0 < n"
  shows "findall_from author_lead (Plus (Sym is_name_or_blank)) Eps
           (n, concat (map (\<lambda>e. '', '' @ fst e @ fst (snd e) @ snd (snd e)) entries)
               @ '', '' @ g)
         = map (\<lambda>e. snd (snd e)) entries"
  using assms(1,4)
proof (induction entries arbitrary: n)
  case Nil
  from last_first_name [OF Nil.prems(2) assms(2,3)] show ?case by simp
next
  case (Cons e es)
  define rest where
    "rest = concat (map (\<lambda>e. '', '' @ fst e @ fst (snd e) @ snd (snd e)) es) @ '', '' @ g"
  have rest: "rest \<noteq> []" "hd rest = CHR '',''"
    unfolding rest_def by (cases es; simp)+
  from Cons.prems(1) have e:
    "\<not> sublist ''and '' (fst e @ '' '')" "\<not> sublist ''AND '' (fst e @ '' '')"
    "fst (snd e) = '' and '' \<or> fst (snd e) = '' AND ''"
    "snd (snd e) \<noteq> []" "hd (snd (snd e)) \<noteq> CHR '' ''"
    "list_all is_name_or_blank (snd (snd e))"
    and es: "\<forall>e \<in> set es.
             \<not> sublist ''and '' (fst e @ '' '') \<and> \<not> sublist ''AND '' (fst e @ '' '') \<and>
             (fst (snd e) = '' and '' \<or> fst (snd e) = '' AND '') \<and>
             snd (snd e) \<noteq> [] \<and> hd (snd (snd e)) \<noteq> CHR '' '' \<and>
             list_all is_name_or_blank (snd (snd e))"
    by simp_all
  from entry_step [OF Cons.prems(2) e rest]
  have "findall_from author_lead (Plus (Sym is_name_or_blank)) Eps
          (n, '', '' @ fst e @ fst (snd e) @ snd (snd e) @ rest)
        = snd (snd e) # findall_from author_lead (Plus (Sym is_name_or_blank)) Eps
            (n + 2 + length (fst e) + 5 + length (snd (snd e)), rest)" .
  also have "findall_from author_lead (Plus (Sym is_name_or_blank)) Eps
            (n + 2 + length (fst e) + 5 + length (snd (snd e)), rest)
          = map (\<lambda>e. snd (snd e)) es"
    unfolding rest_def by (rule Cons.IH [OF es]) simp
  finally show ?case by (simp add: rest_def)
qed

text \<open>
  C8. \<^verbatim>\<open>find_author\<close> matches the separator word with its case: exactly
  the two spellings \<^verbatim>\<open>and\<close> and \<^verbatim>\<open>AND\<close> separate names, in both branches.

  \<^item> A field without comma made of names joined by \<^verbatim>\<open>" and "\<close> or \<^verbatim>\<open>" AND "\<close>, each
    name a non-empty word of letters and hyphens: all the names are extracted, in
    order.
  \<^item> A field of entries "Surname, First" joined by \<^verbatim>\<open>" and "\<close> or \<^verbatim>\<open>" AND "\<close>, where
    every surname is a non-empty text of letters, hyphens and blanks, no surname
    but the first begins with a blank, no first name but the last has \<^verbatim>\<open>and\<close> or
    \<^verbatim>\<open>AND\<close> in front of a blank or at its end, and the last first name has neither
    in front of a blank; the first names are otherwise arbitrary text: the
    surnames are extracted, in order, and nothing else.
  \<^item> A field without comma made of three non-empty words of letters and hyphens
    with single blanks between them, the middle one any word other than \<^verbatim>\<open>and\<close>
    and \<^verbatim>\<open>AND\<close>, such as \<^verbatim>\<open>And\<close>: the middle word does not separate, only the
    last word is extracted.
\<close>

theorem find_author_separators:
  "((\<forall>(a, sep) \<in> set pairs.
        a \<noteq> [] \<and> list_all is_name_char a \<and> (sep = '' and '' \<or> sep = '' AND '')) \<and>
    z \<noteq> [] \<and> list_all is_name_char z \<longrightarrow>
      find_author (concat (map (\<lambda>(a, sep). a @ sep) pairs) @ z) = map fst pairs @ [z]) \<and>
   (a0 \<noteq> [] \<and> list_all is_name_or_blank a0 \<and>
    (\<forall>(f, sep, a) \<in> set entries.
        \<not> sublist ''and '' (f @ '' '') \<and> \<not> sublist ''AND '' (f @ '' '') \<and>
        (sep = '' and '' \<or> sep = '' AND '') \<and>
        a \<noteq> [] \<and> hd a \<noteq> CHR '' '' \<and> list_all is_name_or_blank a) \<and>
    \<not> sublist ''and '' g \<and> \<not> sublist ''AND '' g \<longrightarrow>
      find_author (a0 @ concat (map (\<lambda>(f, sep, a). '', '' @ f @ sep @ a) entries) @ '', '' @ g)
        = a0 # map (\<lambda>(f, sep, a). a) entries) \<and>
   (x \<noteq> [] \<and> list_all is_name_char x \<and> w \<noteq> [] \<and> list_all is_name_char w \<and>
    w \<noteq> ''and'' \<and> w \<noteq> ''AND'' \<and> y \<noteq> [] \<and> list_all is_name_char y \<longrightarrow>
      find_author (x @ '' '' @ w @ '' '' @ y) = [y])"
proof (intro conjI impI)
  assume h: "(\<forall>(a, sep) \<in> set pairs.
        a \<noteq> [] \<and> list_all is_name_char a \<and> (sep = '' and '' \<or> sep = '' AND '')) \<and>
    z \<noteq> [] \<and> list_all is_name_char z"
  then have p: "\<forall>p \<in> set pairs. fst p \<noteq> [] \<and> list_all is_name_char (fst p) \<and>
                            (snd p = '' and '' \<or> snd p = '' AND '')"
    and z: "z \<noteq> []" "list_all is_name_char z"
    by (simp_all add: split_def)
  from p have "\<forall>p \<in> set pairs. list_all is_name_char (fst p) \<and>
                            (snd p = '' and '' \<or> snd p = '' AND '')" by blast
  from joined_no_comma [OF this z(2)]
  have "find_author (concat (map (\<lambda>p. fst p @ snd p) pairs) @ z)
          = findall_from Eps (Plus (Sym is_name_char)) author_sep
              (0, concat (map (\<lambda>p. fst p @ snd p) pairs) @ z)"
    by (simp add: find_author_def findall_def del: findall_from.simps)
  also have "\<dots> = map fst pairs @ [z]"
    by (rule findall_nocomma [OF p z])
  finally show "find_author (concat (map (\<lambda>(a, sep). a @ sep) pairs) @ z) = map fst pairs @ [z]"
    by (simp add: split_def)
next
  assume h: "a0 \<noteq> [] \<and> list_all is_name_or_blank a0 \<and>
    (\<forall>(f, sep, a) \<in> set entries.
        \<not> sublist ''and '' (f @ '' '') \<and> \<not> sublist ''AND '' (f @ '' '') \<and>
        (sep = '' and '' \<or> sep = '' AND '') \<and>
        a \<noteq> [] \<and> hd a \<noteq> CHR '' '' \<and> list_all is_name_or_blank a) \<and>
    \<not> sublist ''and '' g \<and> \<not> sublist ''AND '' g"
  define rest where
    "rest = concat (map (\<lambda>e. '', '' @ fst e @ fst (snd e) @ snd (snd e)) entries) @ '', '' @ g"
  from h have a0: "a0 \<noteq> []" "list_all is_name_or_blank a0"
    and es: "\<forall>e \<in> set entries.
             \<not> sublist ''and '' (fst e @ '' '') \<and> \<not> sublist ''AND '' (fst e @ '' '') \<and>
             (fst (snd e) = '' and '' \<or> fst (snd e) = '' AND '') \<and>
             snd (snd e) \<noteq> [] \<and> hd (snd (snd e)) \<noteq> CHR '' '' \<and>
             list_all is_name_or_blank (snd (snd e))"
    and g: "\<not> sublist ''and '' g" "\<not> sublist ''AND '' g"
    by (simp_all add: split_def)
  have rest: "rest \<noteq> []" "hd rest = CHR '',''"
    unfolding rest_def by (cases entries; simp)+
  from rest have "CHR '','' \<in> set rest" by (cases rest) auto
  then have "find_author (a0 @ rest)
          = findall_from author_lead (Plus (Sym is_name_or_blank)) Eps (0, a0 @ rest)"
    by (simp add: find_author_def findall_def del: findall_from.simps)
  also have "\<dots> = a0 # findall_from author_lead (Plus (Sym is_name_or_blank)) Eps
                         (length a0, rest)"
    by (subst findall_from.simps)
       (simp add: surname_at_start [OF a0 rest] a0(1) del: findall_from.simps)
  also have "findall_from author_lead (Plus (Sym is_name_or_blank)) Eps (length a0, rest)
               = map (\<lambda>e. snd (snd e)) entries"
    unfolding rest_def by (rule findall_entries [OF es g]) (simp add: a0(1))
  finally show "find_author
      (a0 @ concat (map (\<lambda>(f, sep, a). '', '' @ f @ sep @ a) entries) @ '', '' @ g)
        = a0 # map (\<lambda>(f, sep, a). a) entries"
    by (simp add: split_def rest_def)
next
  assume h: "x \<noteq> [] \<and> list_all is_name_char x \<and> w \<noteq> [] \<and> list_all is_name_char w \<and>
    w \<noteq> ''and'' \<and> w \<noteq> ''AND'' \<and> y \<noteq> [] \<and> list_all is_name_char y"
  then have "CHR '','' \<notin> set (x @ '' '' @ w @ '' '' @ y)"
    using name_char_plain by (auto simp: list_all_iff)
  then have "find_author (x @ '' '' @ w @ '' '' @ y)
          = findall_from Eps (Plus (Sym is_name_char)) author_sep
              (0, x @ '' '' @ w @ '' '' @ y)"
    by (simp add: find_author_def findall_def del: findall_from.simps)
  also have "\<dots> = [y]"
    using h by (intro findall_other_word) simp_all
  finally show "find_author (x @ '' '' @ w @ '' '' @ y) = [y]" .
qed

theorem find_author_separators_counterexample:
  "find_author ''Smith and Jones'' = [''Smith'', ''Jones''] \<and>
   find_author ''Smith And Jones'' = [''Jones''] \<and>
   find_author ''Smith, John and Jones, Bob'' = [''Smith'', ''Jones''] \<and>
   find_author ''Smith, John And Jones, Bob'' = [''Smith''] \<and>
   find_author ''Smith And Jones, Bob'' = [''Smith And Jones'']"
  by code_simp

theorem find_author_separators_witness:
  "find_author ''Smith and Lee AND Jones'' = [''Smith'', ''Lee'', ''Jones''] \<and>
   find_author ''van Gogh, Vincent and De la Cruz, J. R. AND Smith-Lee, Brand''
     = [''van Gogh'', ''De la Cruz'', ''Smith-Lee''] \<and>
   find_author ''Smith aNd Jones'' = [''Jones'']"
proof -
  have n: "list_all is_name_char ''Smith''" "list_all is_name_char ''Lee''"
    "list_all is_name_char ''Jones''" "list_all is_name_char ''aNd''"
    "list_all is_name_or_blank ''van Gogh''" "list_all is_name_or_blank ''De la Cruz''"
    "list_all is_name_or_blank ''Smith-Lee''"
    by code_simp+
  have s: "\<not> sublist ''and '' (''Vincent'' @ '' '')" "\<not> sublist ''AND '' (''Vincent'' @ '' '')"
    "\<not> sublist ''and '' (''J. R.'' @ '' '')" "\<not> sublist ''AND '' (''J. R.'' @ '' '')"
    "\<not> sublist ''and '' ''Brand''" "\<not> sublist ''AND '' ''Brand''"
    by code_simp+
  from find_author_separators
    [where pairs = "[(''Smith'', '' and ''), (''Lee'', '' AND '')]" and z = "''Jones''"
       and ?a0.0 = "''van Gogh''"
       and entries = "[(''Vincent'', '' and '', ''De la Cruz''),
                       (''J. R.'', '' AND '', ''Smith-Lee'')]"
       and g = "''Brand''" and x = "''Smith''" and w = "''aNd''" and y = "''Jones''"]
  show ?thesis
    using n s by simp
qed

end
